theory Spec2Isabelle
  imports Main
begin

section \<open>Values shared by the server's operations\<close>

text \<open>
  Exceptions of the host language are values. \<open>SyntaxError\<close> is what the pattern engine
  throws on an invalid pattern, \<open>TypeError\<close> what a property access on \<open>undefined\<close> or
  \<open>null\<close> throws, \<open>FsError\<close> a rejection of the file system module (its code, such as
  ENOENT or EISDIR), \<open>HttpError\<close> an error of the response object (its code),
  \<open>HandlerError\<close> whatever a middleware rejects with or raises.
\<close>

datatype js_error =
    SyntaxError string
  | TypeError string
  | FsError string
  | HttpError string
  | HandlerError string

text \<open>
  The response object belongs to the transport. Its state is the list, in order, of the
  calls and assignments made on it. The head of the response has been sent once
  \<open>writeHead\<close> or \<open>end\<close> has been called; from then on \<open>setHeader\<close> and \<open>writeHead\<close>
  throw. Assigning \<open>statusCode\<close> never throws.
\<close>

datatype res_op =
    SetStatusCode nat
  | SetHeader string string
  | WriteHead nat
  | End string

fun sends_head :: "res_op \<Rightarrow> bool" where
  "sends_head (WriteHead n) = True"
| "sends_head (End b) = True"
| "sends_head x = False"

definition headersSent :: "res_op list \<Rightarrow> bool" where
  "headersSent written = list_ex sends_head written"

definition set_statusCode :: "nat \<Rightarrow> res_op list \<Rightarrow> res_op list" where
  "set_statusCode n written = written @ [SetStatusCode n]"

definition setHeader :: "string \<Rightarrow> string \<Rightarrow> res_op list \<Rightarrow> js_error + res_op list" where
  "setHeader k v written =
     (if headersSent written then Inl (HttpError ''ERR_HTTP_HEADERS_SENT'')
      else Inr (written @ [SetHeader k v]))"

definition writeHead :: "nat \<Rightarrow> res_op list \<Rightarrow> js_error + res_op list" where
  "writeHead n written =
     (if headersSent written then Inl (HttpError ''ERR_HTTP_HEADERS_SENT'')
      else Inr (written @ [WriteHead n]))"

definition res_end :: "string \<Rightarrow> res_op list \<Rightarrow> res_op list" where
  "res_end b written = written @ [End b]"

datatype console_entry =
    ConsoleLog string
  | ConsoleWarn string
  | ConsoleError js_error

record IncomingMessage =
  url :: string

text \<open>
  A middleware is an async function of the request, the response and the continuation.
  One call of it is described by what it did before its promise settled: the calls it
  made on the response (it is given the calls made so far), whether it invoked the
  continuation, and the rejection if the promise was rejected. An async function does
  not throw to its caller: a failure in it is a rejection.
\<close>

record handler_run =
  writes :: "res_op list"
  invoked :: bool
  rejection :: "js_error option"

type_synonym Middleware = "IncomingMessage \<Rightarrow> res_op list \<Rightarrow> handler_run"

section \<open>Route patterns\<close>

text \<open>
  The pattern engine is the host's. Two things of it are taken as parameters: whether
  \<open>new RegExp(source, flags)\<close> succeeds, and what \<open>test\<close> answers for a compiled pattern.
  The one pattern the source writes as a literal, \<open>/[\s\S]*/\<close>, is kept as syntax (a
  starred bracket of character class escapes) and given its matching semantics below.
  Strings are lists of 8-bit characters: of the white space and of the line terminators
  of the host language, those below 256 are represented.
\<close>

record engine =
  regexp_compiles :: "string \<Rightarrow> string \<Rightarrow> bool"
  regexp_test :: "string \<Rightarrow> string \<Rightarrow> string \<Rightarrow> bool"

datatype class_escape = Whitespace | NonWhitespace

datatype RegExp =
    StarLiteral "class_escape list"
  | RegExp string string

definition is_whitespace :: "char \<Rightarrow> bool" where
  "is_whitespace c = (c \<in> set [CHR 0x09, CHR 0x0A, CHR 0x0B, CHR 0x0C, CHR 0x0D, CHR 0x20, CHR 0xA0])"

fun class_matches :: "class_escape \<Rightarrow> char \<Rightarrow> bool" where
  "class_matches Whitespace c = is_whitespace c"
| "class_matches NonWhitespace c = (\<not> is_whitespace c)"

definition bracket_matches :: "class_escape list \<Rightarrow> char \<Rightarrow> bool" where
  "bracket_matches cs c = list_ex (\<lambda>k. class_matches k c) cs"

text \<open>
  A greedy starred bracket, tried at the start of \<open>s\<close>: it takes the longest run of
  characters of the bracket and never fails. The result is the matched text.
\<close>

definition star_match_at :: "class_escape list \<Rightarrow> string \<Rightarrow> string option" where
  "star_match_at cs s = Some (takeWhile (bracket_matches cs) s)"

text \<open>
  \<open>test\<close>. For the literal, which has no flag, some start position admits a match.
  For a compiled pattern the engine answers, as a function of the pattern and the input:
  the position a pattern with the g or y flag keeps between two calls is not modelled.
\<close>

definition test :: "engine \<Rightarrow> RegExp \<Rightarrow> string \<Rightarrow> bool" where
  "test eng r s =
     (case r of
        StarLiteral cs \<Rightarrow> list_ex (\<lambda>i. star_match_at cs (drop i s) \<noteq> None) [0..<Suc (length s)]
      | RegExp src fl \<Rightarrow> regexp_test eng src fl s)"

definition newRegExp :: "engine \<Rightarrow> string \<Rightarrow> string \<Rightarrow> js_error + RegExp" where
  "newRegExp eng src fl =
     (if regexp_compiles eng src fl then Inr (RegExp src fl)
      else Inl (SyntaxError src))"

subsection \<open>stringToRegex\<close>

definition delimiters :: "char list" where
  "delimiters = [CHR ''/'', CHR ''~'', CHR ''@'', CHR '';'', CHR ''%'', CHR ''#'', CHR 0x27]"

definition flag_letters :: "char list" where
  "flag_letters = ''gimsuy''"

definition is_line_terminator :: "char \<Rightarrow> bool" where
  "is_line_terminator c = (c = CHR 0x0A \<or> c = CHR 0x0D)"

text \<open>
  The match of \<open>/^([\/~@;%#'])(.*?)\1([gimsuy]*)$/\<close> after the delimiter \<open>d\<close> has been
  read. The lazy group is extended one character at a time: at each position the
  matcher first tries to finish (the delimiter again, then only flag letters up to the
  end of the input), and otherwise lets the dot take the next character, which it does
  for any character but a line terminator. \<open>acc\<close> is the body so far, reversed.
\<close>

fun lazy_body :: "char \<Rightarrow> string \<Rightarrow> string \<Rightarrow> (string \<times> string) option" where
  "lazy_body d acc [] = None"
| "lazy_body d acc (c # cs) =
     (if c = d \<and> list_all (\<lambda>f. f \<in> set flag_letters) cs then Some (rev acc, cs)
      else if is_line_terminator c then None
      else lazy_body d (c # acc) cs)"

definition route_match :: "string \<Rightarrow> (string \<times> string) option" where
  "route_match s =
     (case s of
        [] \<Rightarrow> None
      | d # rest \<Rightarrow> if d \<in> set delimiters then lazy_body d [] rest else None)"

fun indexOf :: "'a list \<Rightarrow> 'a \<Rightarrow> int" where
  "indexOf [] x = - 1"
| "indexOf (y # ys) x =
     (if y = x then 0 else if indexOf ys x = - 1 then - 1 else indexOf ys x + 1)"

text \<open>\<open>split('').filter((i, p, k) => k.indexOf(i) === p).join('')\<close>\<close>

definition unique_flags :: "string \<Rightarrow> string" where
  "unique_flags k = map snd (filter (\<lambda>(p, i). indexOf k i = int p) (enumerate 0 k))"

definition stringToRegex :: "engine \<Rightarrow> string \<Rightarrow> js_error + RegExp" where
  "stringToRegex eng s =
     (case route_match s of
        Some (body, fl) \<Rightarrow> newRegExp eng body (unique_flags fl)
      | None \<Rightarrow> newRegExp eng s [])"

definition any_path :: RegExp where
  "any_path = StarLiteral [Whitespace, NonWhitespace]"

definition compile_route :: "engine \<Rightarrow> string \<Rightarrow> js_error + RegExp" where
  "compile_route eng route =
     (if route \<noteq> ''*'' then stringToRegex eng route else Inr any_path)"

section \<open>The middleware registry\<close>

record Stack =
  pattern :: RegExp
  middleware :: Middleware

record MimeType =
  type :: string
  name :: string
  extensions :: "string list"

text \<open>
  The fields of the class. A field the constructor never assigns is \<open>undefined\<close>, which
  is \<open>None\<close> here. \<open>connectedBefore\<close> and \<open>middlewares\<close> have initialisers. The fields
  \<open>server\<close> and \<open>io\<close> hold objects of the transport and are not part of the state.
\<close>

record ParvusServer =
  mimeTypes :: "MimeType list option"
  connectedBefore :: bool
  host :: "string option"
  port :: "int option"
  directory :: "string option"
  subfolder :: "string option"
  middlewares :: "Stack list"

text \<open>
  \<open>addMiddleware(middleware, route = '*')\<close>. An omitted route is \<open>None\<close>. The result is
  the exception thrown, if any, and the server after the call.
\<close>

definition addMiddleware ::
  "engine \<Rightarrow> Middleware \<Rightarrow> string option \<Rightarrow> ParvusServer \<Rightarrow> js_error option \<times> ParvusServer" where
  "addMiddleware eng mw route this =
     (case compile_route eng (case route of None \<Rightarrow> ''*'' | Some r \<Rightarrow> r) of
        Inl e \<Rightarrow> (Some e, this)
      | Inr p \<Rightarrow> (None, this\<lparr>middlewares := middlewares this @ [\<lparr>pattern = p, middleware = mw\<rparr>]\<rparr>))"

section \<open>Construction\<close>

record Registration =
  reg_middleware :: Middleware
  reg_route :: "string option"

text \<open>
  The optional fields of \<open>Config\<close>; \<open>None\<close> is an omitted field. A port is a number of
  the host language; the model has the integers among them, of which only 0 is falsy.
\<close>

record Config =
  config_host :: "string option"
  config_port :: "int option"
  config_subfolder :: "string option"
  config_middlewares :: "Registration list option"
  config_directory :: "string option"
  config_additionalMimeTypes :: "MimeType list option"

definition string_or :: "string option \<Rightarrow> string \<Rightarrow> string" where
  "string_or v d = (case v of None \<Rightarrow> d | Some s \<Rightarrow> if s = [] then d else s)"

definition number_or :: "int option \<Rightarrow> int \<Rightarrow> int" where
  "number_or v d = (case v of None \<Rightarrow> d | Some n \<Rightarrow> if n = 0 then d else n)"

definition uninitialised :: ParvusServer where
  "uninitialised =
     \<lparr>mimeTypes = None, connectedBefore = False, host = None, port = None,
      directory = None, subfolder = None, middlewares = []\<rparr>"

text \<open>\<open>forEach(x => this.addMiddleware(x.middleware, x.route))\<close>: a throw ends the loop.\<close>

fun addAll :: "engine \<Rightarrow> Registration list \<Rightarrow> ParvusServer \<Rightarrow> js_error + ParvusServer" where
  "addAll eng [] this = Inr this"
| "addAll eng (x # xs) this =
     (case addMiddleware eng (reg_middleware x) (reg_route x) this of
        (Some e, _) \<Rightarrow> Inl e
      | (None, this') \<Rightarrow> addAll eng xs this')"

definition constructor :: "engine \<Rightarrow> Config option \<Rightarrow> js_error + ParvusServer" where
  "constructor eng config =
     (case config of
        None \<Rightarrow> Inr uninitialised
      | Some c \<Rightarrow>
          (let this1 = uninitialised
                 \<lparr>host := Some (string_or (config_host c) ''localhost''),
                  port := Some (number_or (config_port c) 62295),
                  directory := Some (string_or (config_directory c) ''site''),
                  subfolder := config_subfolder c\<rparr>
           in case (case config_middlewares c of
                      None \<Rightarrow> Inr this1
                    | Some ms \<Rightarrow> addAll eng ms this1) of
                Inl e \<Rightarrow> Inl e
              | Inr this2 \<Rightarrow>
                  Inr (this2\<lparr>mimeTypes :=
                         Some (case config_additionalMimeTypes c of None \<Rightarrow> [] | Some a \<Rightarrow> a)\<rparr>)))"

section \<open>The MIME table\<close>

text \<open>
  \<open>mimeTypes.map(item1 => ...)\<close> over the base table. The callback reads
  \<open>this.mimeTypes.find\<close>, a TypeError when the field is undefined; over an empty base
  table the callback never runs.
\<close>

definition merge_entry :: "MimeType list \<Rightarrow> MimeType \<Rightarrow> MimeType" where
  "merge_entry additions item1 =
     (case find (\<lambda>item. type item = type item1) additions of
        Some item2 \<Rightarrow> item1\<lparr>extensions := extensions item1 @ extensions item2\<rparr>
      | None \<Rightarrow> item1)"

definition mergedMimeTypes :: "ParvusServer \<Rightarrow> MimeType list \<Rightarrow> js_error + MimeType list" where
  "mergedMimeTypes this base =
     (case mimeTypes this of
        None \<Rightarrow> if base = [] then Inr [] else Inl (TypeError ''find'')
      | Some additions \<Rightarrow> Inr (map (merge_entry additions) base))"

section \<open>The live-reload channel\<close>

datatype channel_effect =
    Console console_entry
  | Emit string
  | OnDisconnect

text \<open>
  The channel object exists from \<open>createServer\<close> on; the operations on the channel are
  those of a started server.
\<close>

definition refreshBrowser :: "ParvusServer \<Rightarrow> channel_effect list" where
  "refreshBrowser this = [Console (ConsoleLog ''Asking browser to refresh''), Emit ''refresh'']"

text \<open>The listener of the channel's connection event.\<close>

definition onConnection :: "ParvusServer \<Rightarrow> channel_effect list \<times> ParvusServer" where
  "onConnection this =
     (if \<not> connectedBefore this then (refreshBrowser this, this\<lparr>connectedBefore := True\<rparr>)
      else ([Console (ConsoleLog ''The browser is listening''), OnDisconnect], this))"

definition onDisconnect :: "channel_effect list" where
  "onDisconnect = [Console (ConsoleLog ''The browser disconnected'')]"

section \<open>The platform\<close>

text \<open>
  What the server asks of its platform, as parameters: the pattern engine, the URL
  parser (\<open>new URL(u, 'https://z').pathname\<close>, \<open>None\<close> when it throws), \<open>path.join\<close> and
  \<open>path.extname\<close>, the file system as a snapshot, the HTML parser and serialiser, and
  the content of the bundled MIME table.
\<close>

datatype fs_node = RegularFile string | Directory

datatype node =
    Element string "(string \<times> string) list" "node list"
  | TextNode string

record platform =
  pattern_engine :: engine
  url_pathname :: "string \<Rightarrow> string option"
  path_join :: "string \<Rightarrow> string \<Rightarrow> string"
  path_extname :: "string \<Rightarrow> string"
  fs :: "string \<Rightarrow> fs_node option"
  jsdom :: "string \<Rightarrow> node"
  serialize :: "node \<Rightarrow> string"
  mime_types_json :: "js_error + MimeType list"

definition stat :: "platform \<Rightarrow> string \<Rightarrow> js_error + fs_node" where
  "stat env p = (case fs env p of None \<Rightarrow> Inl (FsError ''ENOENT'') | Some n \<Rightarrow> Inr n)"

definition readFile :: "platform \<Rightarrow> string \<Rightarrow> js_error + string" where
  "readFile env p =
     (case fs env p of
        None \<Rightarrow> Inl (FsError ''ENOENT'')
      | Some Directory \<Rightarrow> Inl (FsError ''EISDIR'')
      | Some (RegularFile content) \<Rightarrow> Inr content)"

definition startAsync :: "platform \<Rightarrow> ParvusServer \<Rightarrow> js_error + ParvusServer" where
  "startAsync env this =
     (case mime_types_json env of
        Inl e \<Rightarrow> Inl e
      | Inr base \<Rightarrow>
          (case mergedMimeTypes this base of
             Inl e \<Rightarrow> Inl e
           | Inr merged \<Rightarrow> Inr (this\<lparr>mimeTypes := Some merged\<rparr>)))"

section \<open>The HTML injector\<close>

text \<open>
  A reference to an element is the path to it from the document node: the index of a
  child, then the path inside that child. \<open>querySelector\<close> answers the first element
  with the tag in document order, among the descendants of the document.
\<close>

definition shift :: "nat list \<Rightarrow> nat list" where
  "shift p = (case p of [] \<Rightarrow> [] | i # q \<Rightarrow> Suc i # q)"

fun query_node :: "string \<Rightarrow> node \<Rightarrow> nat list option"
  and query_nodes :: "string \<Rightarrow> node list \<Rightarrow> nat list option" where
  "query_node t (TextNode s) = None"
| "query_node t (Element tag as cs) = (if tag = t then Some [] else query_nodes t cs)"
| "query_nodes t [] = None"
| "query_nodes t (c # cs) =
     (case query_node t c of
        Some p \<Rightarrow> Some (0 # p)
      | None \<Rightarrow> map_option shift (query_nodes t cs))"

definition querySelector :: "string \<Rightarrow> node \<Rightarrow> nat list option" where
  "querySelector t document =
     (case document of Element tag as cs \<Rightarrow> query_nodes t cs | TextNode s \<Rightarrow> None)"

fun appendChild :: "nat list \<Rightarrow> node \<Rightarrow> node \<Rightarrow> node" where
  "appendChild p new (TextNode s) = TextNode s"
| "appendChild [] new (Element t as cs) = Element t as (cs @ [new])"
| "appendChild (i # p) new (Element t as cs) =
     (if i < length cs then Element t as (cs[i := appendChild p new (cs ! i)])
      else Element t as cs)"

definition loader_script :: node where
  "loader_script =
     Element ''script'' [(''src'', ''/socket.io/socket.io.js''), (''type'', ''text/javascript'')] []"

definition reload_script :: node where
  "reload_script =
     Element ''script'' [(''type'', ''text/javascript'')]
       [TextNode (''const socket = io();socket.on('' @ [CHR 0x27] @ ''refresh'' @ [CHR 0x27]
          @ '', () => document.location.reload());'')]"

definition socketInjection :: "platform \<Rightarrow> string \<Rightarrow> js_error + string" where
  "socketInjection env html =
     (let document = jsdom env html
      in case querySelector ''body'' document of
           None \<Rightarrow> Inl (TypeError ''appendChild'')
         | Some body \<Rightarrow>
             Inr (serialize env
                    (appendChild body reload_script (appendChild body loader_script document))))"

subsection \<open>Reading a document\<close>

fun node_at :: "nat list \<Rightarrow> node \<Rightarrow> node option" where
  "node_at [] n = Some n"
| "node_at (i # p) (TextNode s) = None"
| "node_at (i # p) (Element t as cs) = (if i < length cs then node_at p (cs ! i) else None)"

fun removeLastChild :: "nat list \<Rightarrow> node \<Rightarrow> node" where
  "removeLastChild p (TextNode s) = TextNode s"
| "removeLastChild [] (Element t as cs) = Element t as (butlast cs)"
| "removeLastChild (i # p) (Element t as cs) =
     (if i < length cs then Element t as (cs[i := removeLastChild p (cs ! i)])
      else Element t as cs)"

fun count_elements :: "string \<Rightarrow> node \<Rightarrow> nat" where
  "count_elements t (TextNode s) = 0"
| "count_elements t (Element tag as cs) =
     (if tag = t then 1 else 0) + sum_list (map (count_elements t) cs)"

section \<open>The static file resolver\<close>

definition truthy :: "string option \<Rightarrow> bool" where
  "truthy v = (case v of None \<Rightarrow> False | Some s \<Rightarrow> s \<noteq> [])"

text \<open>\<open>s.replace(pat, '')\<close> with a string pattern: the first occurrence is removed.\<close>

fun replace_first :: "string \<Rightarrow> string \<Rightarrow> string" where
  "replace_first pat [] = []"
| "replace_first pat (c # cs) =
     (if take (length pat) (c # cs) = pat then drop (length pat) (c # cs)
      else c # replace_first pat cs)"

definition endsWith :: "string \<Rightarrow> string \<Rightarrow> bool" where
  "endsWith s suffix = (length suffix \<le> length s \<and> drop (length s - length suffix) s = suffix)"

definition not_found_page :: string where
  \<open>not_found_page =
     [CHR 0x0A] @ ''            <html lang="en">'' @
     [CHR 0x0A] @ ''              <body style="background-color: #171717;color:white;">'' @
     [CHR 0x0A] @ ''                <h3>Page not found</h3>'' @
     [CHR 0x0A] @ ''              </body>'' @
     [CHR 0x0A] @ ''            </html>''\<close>

fun error_text :: "js_error \<Rightarrow> string" where
  "error_text (SyntaxError m) = ''SyntaxError: '' @ m"
| "error_text (TypeError m) = ''TypeError: '' @ m"
| "error_text (FsError m) = ''Error: '' @ m"
| "error_text (HttpError m) = ''Error: '' @ m"
| "error_text (HandlerError m) = ''Error: '' @ m"

definition error_page :: "string \<Rightarrow> js_error \<Rightarrow> string" where
  \<open>error_page u ex =
     ''<html lang="en"><body style="background-color: #171717;color:white;"><h1>Error</h1><p>Failed to load requested file at ''
     @ u @ ''</p><p><pre>'' @ error_text ex @ ''</pre></p></body></html>''\<close>

text \<open>
  \<open>complete\<close>, from a state of the response: the state it leaves, and the exception when
  one of its calls throws.
\<close>

definition complete :: "string \<Rightarrow> string \<Rightarrow> res_op list \<Rightarrow> res_op list \<times> js_error option" where
  "complete mimeType input written =
     (case setHeader ''Content-Type'' mimeType written of
        Inl e \<Rightarrow> (written, Some e)
      | Inr w1 \<Rightarrow>
          (case writeHead 200 w1 of
             Inl e \<Rightarrow> (w1, Some e)
           | Inr w2 \<Rightarrow> (res_end input w2, None)))"

text \<open>The branch of a path that does not exist.\<close>

definition page_not_found :: "res_op list \<Rightarrow> res_op list \<times> js_error option" where
  "page_not_found written =
     (let w1 = set_statusCode 404 written
      in case setHeader ''Content-Type'' ''text/html'' w1 of
           Inl e \<Rightarrow> (w1, Some e)
         | Inr w2 \<Rightarrow> (res_end not_found_page w2, None))"

definition warning :: "string \<Rightarrow> console_entry" where
  "warning ext =
     ConsoleWarn (''Couldn'' @ [CHR 0x27] @ ''t determine mimetype for '' @ ext
                  @ ''. Defaulting to html'')"

definition mime_of :: "platform \<Rightarrow> MimeType list \<Rightarrow> string \<Rightarrow> string \<times> console_entry list" where
  "mime_of env table u =
     (let extension = replace_first ''.'' (path_extname env u);
          mimeType = map_option type (find (\<lambda>x. extension \<in> set (extensions x)) table)
      in case mimeType of
           None \<Rightarrow> (''text/html'', [warning (path_extname env u)])
         | Some t \<Rightarrow> if t = [] then (''text/html'', [warning (path_extname env u)]) else (t, []))"

text \<open>
  The body of the outer \<open>try\<close>, from a state of the response: the state it leaves,
  what it printed, and the exception thrown in it, which the \<open>catch\<close> receives. The
  first \<open>complete\<close> stands inside the inner \<open>try\<close>, whose \<open>catch\<close> swallows what it throws.
\<close>

definition serve_file ::
  "platform \<Rightarrow> ParvusServer \<Rightarrow> string option \<Rightarrow> string \<Rightarrow> bool \<Rightarrow> res_op list
     \<Rightarrow> res_op list \<times> console_entry list \<times> js_error option" where
  "serve_file env this dir u addSocket written =
     (case dir of
        None \<Rightarrow> (written, [], Some (TypeError ''path''))
      | Some d \<Rightarrow>
          (let filePath = path_join env d u
           in case stat env filePath of
                Inl e \<Rightarrow> (case page_not_found written of (w, thrown) \<Rightarrow> (w, [], thrown))
              | Inr fileExists \<Rightarrow>
                  (case readFile env filePath of
                     Inl e \<Rightarrow> (written, [], Some e)
                   | Inr file \<Rightarrow>
                       (case mimeTypes this of
                          None \<Rightarrow> (written, [], Some (TypeError ''find''))
                        | Some table \<Rightarrow>
                            (let (mimeType, warned) = mime_of env table u
                             in if mimeType = ''text/html'' \<and> addSocket then
                                  (case socketInjection env file of
                                     Inr modified \<Rightarrow>
                                       (case complete mimeType modified written of
                                          (w, None) \<Rightarrow> (w, warned, None)
                                        | (w, Some e) \<Rightarrow>
                                            (case complete mimeType file w of
                                               (w', thrown) \<Rightarrow> (w', warned, thrown)))
                                   | Inl e \<Rightarrow>
                                       (case complete mimeType file written of
                                          (w, thrown) \<Rightarrow> (w, warned, thrown)))
                                else (case complete mimeType file written of
                                        (w, thrown) \<Rightarrow> (w, warned, thrown)))))))"

text \<open>The statements before the \<open>try\<close>: an exception thrown there leaves the resolver.\<close>

definition target :: "platform \<Rightarrow> ParvusServer \<Rightarrow> IncomingMessage \<Rightarrow> string option
     \<Rightarrow> js_error + string option \<times> string" where
  "target env this req dirArg =
     (case url_pathname env (url req) of
        None \<Rightarrow> Inl (TypeError ''Invalid URL'')
      | Some pathname \<Rightarrow>
          (let u = (if endsWith pathname ''/'' then pathname @ ''index.html'' else pathname);
               dir = (if truthy dirArg then dirArg else directory this)
           in case subfolder this of
                None \<Rightarrow> Inr (dir, u)
              | Some sub \<Rightarrow>
                  if sub = [] then Inr (dir, u)
                  else (case dir of
                          None \<Rightarrow> Inl (TypeError ''replace'')
                        | Some d \<Rightarrow> Inr (Some (replace_first sub d), replace_first sub u))))"

text \<open>
  The state of the response when the resolver is left, what it printed, and the
  exception that leaves it.
\<close>

record served =
  ops :: "res_op list"
  logs :: "console_entry list"
  failure :: "js_error option"

text \<open>The \<open>catch\<close> of the outer \<open>try\<close>: what its calls throw leaves the resolver.\<close>

definition error_response :: "string \<Rightarrow> js_error \<Rightarrow> res_op list \<Rightarrow> res_op list \<times> js_error option" where
  "error_response u ex written =
     (case setHeader ''Content-Type'' ''text/html'' written of
        Inl e \<Rightarrow> (written, Some e)
      | Inr w1 \<Rightarrow>
          (case writeHead 500 w1 of
             Inl e \<Rightarrow> (w1, Some e)
           | Inr w2 \<Rightarrow> (res_end (error_page u ex) w2, None)))"

definition defaultHandler ::
  "platform \<Rightarrow> ParvusServer \<Rightarrow> IncomingMessage \<Rightarrow> string option \<Rightarrow> bool \<Rightarrow> res_op list
     \<Rightarrow> served" where
  "defaultHandler env this req dirArg addSocket written =
     (case target env this req dirArg of
        Inl e \<Rightarrow> \<lparr>ops = written, logs = [], failure = Some e\<rparr>
      | Inr (dir, u) \<Rightarrow>
          (case serve_file env this dir u addSocket written of
             (w, said, None) \<Rightarrow> \<lparr>ops = w, logs = said, failure = None\<rparr>
           | (w, said, Some ex) \<Rightarrow>
               (case error_response u ex w of
                  (w', thrown) \<Rightarrow>
                    \<lparr>ops = w', logs = said @ [ConsoleError ex], failure = thrown\<rparr>)))"

text \<open>The path the resolver looks up, when it gets as far as looking one up.\<close>

definition candidate_path ::
  "platform \<Rightarrow> ParvusServer \<Rightarrow> IncomingMessage \<Rightarrow> string option \<Rightarrow> string option" where
  "candidate_path env this req dirArg =
     (case target env this req dirArg of
        Inr (Some d, u) \<Rightarrow> Some (path_join env d u)
      | _ \<Rightarrow> None)"

section \<open>The request dispatcher\<close>

text \<open>
  Modelled from the spec: the continuation object of \<open>./middleware\<close> (\<open>generateNext\<close>),
  which is not among the sources. It holds the per-iteration continuation flag:
  \<open>reset\<close> puts it back to not invoked, invoking the continuation sets it, \<open>status\<close>
  reads it.
\<close>

record Next =
  status :: bool

definition generateNext :: Next where
  \<comment> \<open>Modelled from the spec: \<open>generateNext\<close> of \<open>./middleware\<close>, a continuation not yet invoked.\<close>
  "generateNext = \<lparr>status = False\<rparr>"

definition reset :: "Next \<Rightarrow> Next" where
  \<comment> \<open>Modelled from the spec: \<open>next.reset()\<close> of \<open>./middleware\<close>.\<close>
  "reset n = n\<lparr>status := False\<rparr>"

definition invoke :: "Next \<Rightarrow> Next" where
  \<comment> \<open>Modelled from the spec: the call \<open>next()\<close> of \<open>./middleware\<close>.\<close>
  "invoke n = n\<lparr>status := True\<rparr>"

record chain =
  res :: "res_op list"
  console :: "console_entry list"
  continuation :: Next
  runs :: "handler_run list"

text \<open>
  The \<open>for\<close> loop over the matching handlers. A rejection goes to \<open>console.error\<close>;
  the loop breaks when the continuation's status is false after a handler.
\<close>

fun run_chain :: "IncomingMessage \<Rightarrow> Middleware list \<Rightarrow> chain \<Rightarrow> chain" where
  "run_chain req [] st = st"
| "run_chain req (m # ms) st =
     (let st1 = st\<lparr>continuation := reset (continuation st)\<rparr>;
          r = m req (res st1);
          st2 = st1\<lparr>res := res st1 @ writes r,
                   console := console st1 @
                     (case rejection r of None \<Rightarrow> [] | Some e \<Rightarrow> [ConsoleError e]),
                   continuation :=
                     (if invoked r then invoke (continuation st1) else continuation st1),
                   runs := runs st1 @ [r]\<rparr>
      in if status (continuation st2) = False then st2 else run_chain req ms st2)"

record outcome =
  response :: "res_op list"
  printed :: "console_entry list"
  handled :: "handler_run list"
  resolver_invoked :: bool
  escaped :: "js_error option"

definition matching :: "platform \<Rightarrow> ParvusServer \<Rightarrow> IncomingMessage \<Rightarrow> Middleware list" where
  "matching env this req =
     map middleware (filter (\<lambda>x. test (pattern_engine env) (pattern x) (url req)) (middlewares this))"

text \<open>The listener \<open>createServer\<close> gives to the transport.\<close>

definition requestListener :: "platform \<Rightarrow> ParvusServer \<Rightarrow> IncomingMessage \<Rightarrow> outcome" where
  "requestListener env this req =
     (let st = run_chain req (matching env this req)
                 \<lparr>res = [], console = [], continuation = generateNext, runs = []\<rparr>
      in if length (matching env this req) = 0 \<or> status (continuation st) then
           (let d = defaultHandler env this req None True (res st)
            in \<lparr>response = ops d, printed = console st @ logs d, handled = runs st,
                resolver_invoked = True, escaped = failure d\<rparr>)
         else \<lparr>response = res st, printed = console st, handled = runs st,
               resolver_invoked = False, escaped = None\<rparr>)"

subsection \<open>Handlers that are not async functions\<close>

text \<open>
  The listener calls a handler and attaches \<open>catch\<close> to the promise the call returns.
  A function that is not async can raise before it returns a promise: the calls it made
  on the response and on the continuation stand, \<open>catch\<close> is never attached, and the
  exception ends the loop and leaves the listener. \<open>Returned\<close> is a call that gave a
  promise, with what the handler did until the promise settled.
\<close>

datatype handler_call =
    Returned handler_run
  | Raised "res_op list" bool js_error

type_synonym Callable = "IncomingMessage \<Rightarrow> res_op list \<Rightarrow> handler_call"

definition async :: "Middleware \<Rightarrow> Callable" where
  "async m req written = Returned (m req written)"

text \<open>The loop over matched handlers of any kind: the state, the calls made, what was raised.\<close>

fun run_calls ::
  "IncomingMessage \<Rightarrow> Callable list \<Rightarrow> chain \<Rightarrow> chain \<times> handler_call list \<times> js_error option" where
  "run_calls req [] st = (st, [], None)"
| "run_calls req (c # cs) st =
     (let st1 = st\<lparr>continuation := reset (continuation st)\<rparr>
      in case c req (res st1) of
           Raised w called e \<Rightarrow>
             (st1\<lparr>res := res st1 @ w,
                  continuation :=
                    (if called then invoke (continuation st1) else continuation st1)\<rparr>,
              [Raised w called e], Some e)
         | Returned r \<Rightarrow>
             (let st2 = st1\<lparr>res := res st1 @ writes r,
                           console := console st1 @
                             (case rejection r of None \<Rightarrow> [] | Some e \<Rightarrow> [ConsoleError e]),
                           continuation :=
                             (if invoked r then invoke (continuation st1) else continuation st1),
                           runs := runs st1 @ [r]\<rparr>
              in if status (continuation st2) = False then (st2, [Returned r], None)
                 else (case run_calls req cs st2 of
                         (st3, made, raised) \<Rightarrow> (st3, Returned r # made, raised))))"

record dispatched =
  result :: outcome
  made :: "handler_call list"

text \<open>The listener, for the matched handlers given as they are.\<close>

definition dispatch ::
  "platform \<Rightarrow> ParvusServer \<Rightarrow> Callable list \<Rightarrow> IncomingMessage \<Rightarrow> dispatched" where
  "dispatch env this matched req =
     (case run_calls req matched
             \<lparr>res = [], console = [], continuation = generateNext, runs = []\<rparr> of
        (st, calls, Some e) \<Rightarrow>
          \<lparr>result = \<lparr>response = res st, printed = console st, handled = runs st,
                      resolver_invoked = False, escaped = Some e\<rparr>,
           made = calls\<rparr>
      | (st, calls, None) \<Rightarrow>
          \<lparr>result =
             (if length matched = 0 \<or> status (continuation st) then
                (let d = defaultHandler env this req None True (res st)
                 in \<lparr>response = ops d, printed = console st @ logs d, handled = runs st,
                     resolver_invoked = True, escaped = failure d\<rparr>)
              else \<lparr>response = res st, printed = console st, handled = runs st,
                    resolver_invoked = False, escaped = None\<rparr>),
           made = calls\<rparr>)"

section \<open>The operations of a server\<close>

datatype operation =
    AddMiddleware Middleware "string option"
  | StartAsync
  | Stop
  | RefreshBrowser
  | Request IncomingMessage
  | Connection
  | Disconnect bool

text \<open>
  What an operation does to the channel and to the fields. A failed operation leaves
  the fields as they were. \<open>Disconnect\<close> carries whether the socket had the disconnect
  listener registered.
\<close>

fun apply_operation ::
  "platform \<Rightarrow> operation \<Rightarrow> ParvusServer \<Rightarrow> channel_effect list \<times> ParvusServer" where
  "apply_operation env (AddMiddleware mw route) this =
     ([], snd (addMiddleware (pattern_engine env) mw route this))"
| "apply_operation env StartAsync this =
     ([], case startAsync env this of Inl e \<Rightarrow> this | Inr this' \<Rightarrow> this')"
| "apply_operation env Stop this = ([], this)"
| "apply_operation env RefreshBrowser this = (refreshBrowser this, this)"
| "apply_operation env (Request req) this =
     (map Console (printed (requestListener env this req)), this)"
| "apply_operation env Connection this = onConnection this"
| "apply_operation env (Disconnect listening) this =
     (if listening then onDisconnect else [], this)"

fun run :: "platform \<Rightarrow> operation list \<Rightarrow> ParvusServer \<Rightarrow> channel_effect list list \<times> ParvusServer" where
  "run env [] this = ([], this)"
| "run env (x # xs) this =
     (case apply_operation env x this of
        (e, this1) \<Rightarrow> (case run env xs this1 of (es, this2) \<Rightarrow> (e # es, this2)))"

section \<open>Notions the properties are stated with\<close>



text \<open>The handlers run for a request, as a function of the response they start from.\<close>

fun chain_runs :: "IncomingMessage \<Rightarrow> Middleware list \<Rightarrow> res_op list \<Rightarrow> handler_run list" where
  "chain_runs req [] written = []"
| "chain_runs req (m # ms) written =
     m req written #
       (if invoked (m req written) then chain_runs req ms (written @ writes (m req written)) else [])"

definition rejections :: "handler_run list \<Rightarrow> console_entry list" where
  "rejections rs =
     concat (map (\<lambda>r. case rejection r of None \<Rightarrow> [] | Some e \<Rightarrow> [ConsoleError e]) rs)"

text \<open>
  A route spec in delimited form, as the specification words it: a delimiter, a body,
  the same delimiter, flag letters.
\<close>

definition delimited :: "string \<Rightarrow> char \<Rightarrow> string \<Rightarrow> string \<Rightarrow> bool" where
  "delimited s d body fl =
     (d \<in> set delimiters \<and> s = d # body @ d # fl \<and> list_all (\<lambda>f. f \<in> set flag_letters) fl)"

definition single_line :: "string \<Rightarrow> bool" where
  "single_line body = list_all (\<lambda>c. \<not> is_line_terminator c) body"

text \<open>Duplicates collapsed, the first occurrence of each letter kept, in order.\<close>

fun collapse :: "'a list \<Rightarrow> 'a list \<Rightarrow> 'a list" where
  "collapse seen [] = []"
| "collapse seen (x # xs) =
     (if x \<in> set seen then collapse seen xs else x # collapse (seen @ [x]) xs)"

text \<open>What \<open>stringToRegex\<close> hands to the pattern engine for a route.\<close>

definition engine_input :: "string \<Rightarrow> string \<times> string" where
  "engine_input route =
     (case route_match route of Some (body, fl) \<Rightarrow> (body, unique_flags fl) | None \<Rightarrow> (route, []))"

definition route_of :: "string option \<Rightarrow> string" where
  "route_of route = (case route of None \<Rightarrow> ''*'' | Some r \<Rightarrow> r)"

definition regular_file :: "platform \<Rightarrow> string \<Rightarrow> bool" where
  "regular_file env p = (case fs env p of Some (RegularFile content) \<Rightarrow> True | _ \<Rightarrow> False)"

definition is_Connection :: "operation \<Rightarrow> bool" where
  "is_Connection x = (case x of Connection \<Rightarrow> True | _ \<Rightarrow> False)"

definition broadcasts :: "channel_effect list \<Rightarrow> nat" where
  "broadcasts effects = length (filter (\<lambda>e. e = Emit ''refresh'') effects)"

text \<open>The number of broadcasts each connection of a sequence of operations triggers.\<close>

definition connection_broadcasts :: "platform \<Rightarrow> operation list \<Rightarrow> ParvusServer \<Rightarrow> nat list" where
  "connection_broadcasts env xs this =
     map (\<lambda>(x, e). broadcasts e) (filter (\<lambda>(x, e). is_Connection x) (zip xs (fst (run env xs this))))"

definition connections :: "operation list \<Rightarrow> nat" where
  "connections xs = length (filter is_Connection xs)"

text \<open>What a sequence of calls wrote on the response, and the rejections among them.\<close>

fun call_writes :: "handler_call \<Rightarrow> res_op list" where
  "call_writes (Returned r) = writes r"
| "call_writes (Raised w called e) = w"

definition writes_of :: "handler_call list \<Rightarrow> res_op list" where
  "writes_of calls = concat (map call_writes calls)"

fun call_rejection :: "handler_call \<Rightarrow> console_entry list" where
  "call_rejection (Returned r) = (case rejection r of None \<Rightarrow> [] | Some e \<Rightarrow> [ConsoleError e])"
| "call_rejection (Raised w called e) = []"

definition rejections_of :: "handler_call list \<Rightarrow> console_entry list" where
  "rejections_of calls = concat (map call_rejection calls)"

fun is_Raised :: "handler_call \<Rightarrow> bool" where
  "is_Raised (Raised w called e) = True"
| "is_Raised (Returned r) = False"

text \<open>
  The calls made for a request, as a function of the response they start from, and the
  exception a sequence of calls ends with.
\<close>

fun calls_made :: "IncomingMessage \<Rightarrow> Callable list \<Rightarrow> res_op list \<Rightarrow> handler_call list" where
  "calls_made req [] written = []"
| "calls_made req (c # cs) written =
     (case c req written of
        Raised w called e \<Rightarrow> [Raised w called e]
      | Returned r \<Rightarrow>
          Returned r # (if invoked r then calls_made req cs (written @ writes r) else []))"

fun call_raised :: "handler_call \<Rightarrow> js_error option" where
  "call_raised (Raised w called e) = Some e"
| "call_raised (Returned r) = None"

definition raised_of :: "handler_call list \<Rightarrow> js_error option" where
  "raised_of calls = (if calls = [] then None else call_raised (last calls))"

definition stopped :: "outcome \<Rightarrow> bool" where
  "stopped out = list_ex (\<lambda>r. \<not> invoked r) (handled out)"

section \<open>A server to run the properties on\<close>

text \<open>
  An engine for the examples: every source but an unclosed group compiles, and a
  compiled pattern accepts the strings its source occurs in.
\<close>

definition example_engine :: engine where
  "example_engine =
     \<lparr>regexp_compiles = (\<lambda>src fl. src \<noteq> ''(''),
      regexp_test = (\<lambda>src fl s. list_ex (\<lambda>i. take (length src) (drop i s) = src) [0..<Suc (length s)])\<rparr>"

definition example_table :: "MimeType list" where
  "example_table =
     [\<lparr>type = ''text/html'', name = ''html'', extensions = [''html'', ''htm'']\<rparr>,
      \<lparr>type = ''text/css'', name = ''css'', extensions = [''css'']\<rparr>]"

definition example_parse :: "string \<Rightarrow> node" where
  "example_parse html =
     Element ''#document'' []
       [Element ''html'' []
          (Element ''head'' [] [] #
             (if html = ''<frameset>'' then [Element ''frameset'' [] []]
              else [Element ''body'' [] [TextNode html]]))]"

fun example_serialize :: "node \<Rightarrow> string" where
  "example_serialize (TextNode s) = s"
| "example_serialize (Element t as cs) =
     (if t = ''#document'' then concat (map example_serialize cs)
      else ''<'' @ t @ ''>'' @ concat (map example_serialize cs) @ ''</'' @ t @ ''>'')"

definition example_platform :: platform where
  "example_platform =
     \<lparr>pattern_engine = example_engine,
      url_pathname = (\<lambda>u. if u = ''//'' then None else Some (takeWhile (\<lambda>c. c \<noteq> CHR ''?'') u)),
      path_join = (\<lambda>d u. d @ u),
      path_extname =
        (\<lambda>u. if CHR ''.'' \<in> set u then CHR ''.'' # rev (takeWhile (\<lambda>c. c \<noteq> CHR ''.'') (rev u))
             else []),
      fs = map_of [(''site/index.html'', RegularFile ''hello''),
                   (''site/frames.html'', RegularFile ''<frameset>''),
                   (''site/assets'', Directory)],
      jsdom = example_parse,
      serialize = example_serialize,
      mime_types_json = Inr example_table\<rparr>"

text \<open>The handlers of the repository's example start-up script.\<close>

definition from_config :: Middleware where
  \<open>from_config req written =
     \<lparr>writes = [SetHeader ''Content-Type'' ''text/html'', WriteHead 200,
                End (''<html lang="en"><body>from config. '' @ url req @ ''</body></html>'')],
      invoked = False, rejection = None\<rparr>\<close>

definition authorize :: Middleware where
  "authorize req written =
     \<lparr>writes = [SetHeader ''authorization'' ''yo''], invoked = True, rejection = None\<rparr>"

definition from_middleware :: Middleware where
  \<open>from_middleware req written =
     \<lparr>writes = [SetHeader ''Content-Type'' ''text/html'', WriteHead 500,
                End ''<html lang="en"><body><h1>Error</h1>from middleware</body></html>''],
      invoked = False, rejection = None\<rparr>\<close>

text \<open>A handler that sends the response and invokes the continuation all the same.\<close>

definition eager :: Middleware where
  "eager req written =
     \<lparr>writes = [WriteHead 200, End ''done''], invoked = True, rejection = None\<rparr>"

text \<open>A handler that rejects, and one that rejects after it has invoked the continuation.\<close>

definition rejecting :: Middleware where
  "rejecting req written =
     \<lparr>writes = [SetHeader ''x-step'' ''1''], invoked = False,
      rejection = Some (HandlerError ''boom'')\<rparr>"

definition rejecting_after_next :: Middleware where
  "rejecting_after_next req written =
     \<lparr>writes = [], invoked = True, rejection = Some (HandlerError ''boom'')\<rparr>"

definition example_config :: Config where
  "example_config =
     \<lparr>config_host = None, config_port = None, config_subfolder = None,
      config_middlewares = Some [\<lparr>reg_middleware = from_config, reg_route = Some ''/config''\<rparr>],
      config_directory = None, config_additionalMimeTypes = None\<rparr>"

definition example_server :: ParvusServer where
  "example_server =
     \<lparr>mimeTypes = Some example_table, connectedBefore = False, host = Some ''localhost'',
      port = Some 62295, directory = Some ''site'', subfolder = None,
      middlewares =
        [\<lparr>pattern = RegExp ''/config'' [], middleware = from_config\<rparr>,
         \<lparr>pattern = any_path, middleware = authorize\<rparr>,
         \<lparr>pattern = RegExp ''/mw'' [], middleware = from_middleware\<rparr>]\<rparr>"

definition eager_server :: ParvusServer where
  "eager_server = example_server\<lparr>middlewares := [\<lparr>pattern = any_path, middleware = eager\<rparr>]\<rparr>"

definition rejecting_server :: ParvusServer where
  "rejecting_server =
     example_server\<lparr>middlewares :=
       [\<lparr>pattern = any_path, middleware = authorize\<rparr>,
        \<lparr>pattern = any_path, middleware = rejecting\<rparr>,
        \<lparr>pattern = any_path, middleware = from_middleware\<rparr>]\<rparr>"

definition rejecting_after_next_server :: ParvusServer where
  "rejecting_after_next_server =
     example_server\<lparr>middlewares :=
       [\<lparr>pattern = any_path, middleware = rejecting_after_next\<rparr>,
        \<lparr>pattern = any_path, middleware = authorize\<rparr>]\<rparr>"

definition multiline_route :: string where
  "multiline_route = ''/a'' @ [CHR 0x0A] @ ''b/''"

text \<open>The server the constructor builds from the example configuration.\<close>

definition constructed_server :: ParvusServer where
  "constructed_server =
     example_server\<lparr>mimeTypes := Some [],
       middlewares := [\<lparr>pattern = RegExp ''/config'' [], middleware = from_config\<rparr>]\<rparr>"

definition falsy_config :: Config where
  "falsy_config =
     example_config\<lparr>config_host := Some [], config_port := Some 0, config_directory := Some []\<rparr>"

definition scss_additions :: "MimeType list" where
  "scss_additions =
     [\<lparr>type = ''text/css'', name = ''css'', extensions = [''scss'']\<rparr>,
      \<lparr>type = ''text/x-zig'', name = ''zig'', extensions = [''zig'']\<rparr>]"

text \<open>A handler that is not async and raises, after a call on the response.\<close>

definition raising :: Callable where
  "raising req written = Raised [SetHeader ''x-step'' ''1''] False (HandlerError ''boom'')"

text \<open>Two additions of one type.\<close>

definition sass_additions :: "MimeType list" where
  "sass_additions =
     [\<lparr>type = ''text/css'', name = ''css'', extensions = [''scss'']\<rparr>,
      \<lparr>type = ''text/css'', name = ''css'', extensions = [''sass'']\<rparr>]"

section \<open>Route compilation\<close>

lemma delimiter_not_flag: "d \<in> set delimiters \<Longrightarrow> d \<notin> set flag_letters"
  by (auto simp: delimiters_def flag_letters_def)

lemma lazy_body_complete:
  "d \<notin> set flag_letters \<Longrightarrow> list_all (\<lambda>f. f \<in> set flag_letters) fl \<Longrightarrow> single_line body
     \<Longrightarrow> lazy_body d acc (body @ d # fl) = Some (rev acc @ body, fl)"
proof (induction body arbitrary: acc)
  case Nil
  then show ?case by simp
next
  case (Cons c body)
  have "\<not> list_all (\<lambda>f. f \<in> set flag_letters) (body @ d # fl)"
    using Cons.prems(1) by (simp add: list_all_iff)
  moreover have "\<not> is_line_terminator c" and "single_line body"
    using Cons.prems(3) by (simp_all add: single_line_def)
  ultimately show ?case
    using Cons.IH [OF Cons.prems(1,2), of "c # acc"] by simp
qed

lemma lazy_body_sound:
  "lazy_body d acc xs = Some (b, fl)
     \<Longrightarrow> \<exists>body. b = rev acc @ body \<and> xs = body @ d # fl
            \<and> list_all (\<lambda>f. f \<in> set flag_letters) fl \<and> single_line body"
proof (induction xs arbitrary: acc)
  case Nil
  then show ?case by simp
next
  case (Cons c cs)
  show ?case
  proof (cases "c = d \<and> list_all (\<lambda>f. f \<in> set flag_letters) cs")
    case True
    with Cons.prems show ?thesis by (auto simp: single_line_def)
  next
    case False
    with Cons.prems have nl: "\<not> is_line_terminator c" and rec: "lazy_body d (c # acc) cs = Some (b, fl)"
      by (auto split: if_splits)
    from Cons.IH [OF rec] obtain body where
      "b = rev (c # acc) @ body" "cs = body @ d # fl"
      "list_all (\<lambda>f. f \<in> set flag_letters) fl" "single_line body"
      by blast
    with nl show ?thesis
      by (intro exI [of _ "c # body"]) (simp add: single_line_def)
  qed
qed

lemma route_match_delimited:
  assumes "delimited s d body fl" and "single_line body"
  shows "route_match s = Some (body, fl)"
  using assms lazy_body_complete [of d fl body "[]"] delimiter_not_flag [of d]
  by (simp add: delimited_def route_match_def)

lemma route_match_sound:
  assumes "route_match s = Some (body, fl)"
  shows "\<exists>d. delimited s d body fl \<and> single_line body"
proof -
  from assms obtain d rest where s: "s = d # rest" and d: "d \<in> set delimiters"
    and lb: "lazy_body d [] rest = Some (body, fl)"
    by (auto simp: route_match_def split: list.splits if_splits)
  from lazy_body_sound [OF lb] show ?thesis
    using s d by (auto simp: delimited_def)
qed

lemma indexOf_first: "x \<notin> set pre \<Longrightarrow> indexOf (pre @ x # ys) x = int (length pre)"
  by (induction pre) auto

lemma indexOf_bounds: "x \<in> set pre \<Longrightarrow> 0 \<le> indexOf (pre @ zs) x \<and> indexOf (pre @ zs) x < int (length pre)"
  by (induction pre) auto

lemma collapse_cong: "set a = set b \<Longrightarrow> collapse a xs = collapse b xs"
proof (induction xs arbitrary: a b)
  case Nil
  show ?case by simp
next
  case (Cons x xs)
  have "set (a @ [x]) = set (b @ [x])" using Cons.prems by simp
  then have "collapse (a @ [x]) xs = collapse (b @ [x]) xs" by (rule Cons.IH)
  moreover have "collapse a xs = collapse b xs" using Cons.prems by (rule Cons.IH)
  moreover have "x \<in> set a \<longleftrightarrow> x \<in> set b" using Cons.prems by simp
  ultimately show ?case by simp
qed

lemma unique_from:
  "map snd (filter (\<lambda>(p, i). indexOf (pre @ xs) i = int p) (enumerate (length pre) xs)) = collapse pre xs"
proof (induction xs arbitrary: pre)
  case Nil
  then show ?case by simp
next
  case (Cons x xs)
  have step: "map snd (filter (\<lambda>(p, i). indexOf (pre @ x # xs) i = int p) (enumerate (Suc (length pre)) xs))
      = collapse (pre @ [x]) xs"
    using Cons.IH [of "pre @ [x]"] by simp
  show ?case
  proof (cases "x \<in> set pre")
    case True
    then have "indexOf (pre @ x # xs) x \<noteq> int (length pre)"
      using indexOf_bounds [of x pre "x # xs"] by simp
    moreover have "collapse (pre @ [x]) xs = collapse pre xs"
      using True by (intro collapse_cong) auto
    ultimately show ?thesis using True step by simp
  next
    case False
    then show ?thesis using step indexOf_first [of x pre xs] by simp
  qed
qed


lemma unique_flags_collapse: "unique_flags k = collapse [] k"
  using unique_from [of "[]" k] by (simp add: unique_flags_def)

lemma collapse_distinct: "distinct (collapse seen xs) \<and> set (collapse seen xs) = set xs - set seen"
  by (induction seen xs rule: collapse.induct) auto

lemma any_path_consumes: "star_match_at [Whitespace, NonWhitespace] p = Some p"
  by (simp add: star_match_at_def bracket_matches_def)

lemma any_path_accepts: "test eng any_path p"
  by (simp add: test_def any_path_def star_match_at_def)


lemma compile_delimited:
  assumes "delimited s d body fl" and "single_line body"
  shows "compile_route eng s = newRegExp eng body (collapse [] fl)"
proof -
  have "s \<noteq> ''*''"
    using assms(1) by (auto simp: delimited_def delimiters_def)
  then show ?thesis
    using route_match_delimited [OF assms]
    by (simp add: compile_route_def stringToRegex_def unique_flags_collapse)
qed

lemma compile_other:
  assumes "s \<noteq> ''*''" and "\<forall>d body fl. \<not> (delimited s d body fl \<and> single_line body)"
  shows "compile_route eng s = newRegExp eng s []"
proof -
  have "route_match s = None"
  proof (cases "route_match s")
    case None
    then show ?thesis .
  next
    case (Some bf)
    then obtain b f where "route_match s = Some (b, f)" by (cases bf) simp
    from route_match_sound [OF this] assms(2) show ?thesis by blast
  qed
  with assms(1) show ?thesis
    by (simp add: compile_route_def stringToRegex_def)
qed

text \<open>
  Claim C3, amended. A route spec compiles to one matcher. The spec \<open>*\<close> gives the
  literal pattern, which accepts every path, the empty one too. A spec made of a
  delimiter among \<open>/ ~ @ ; % # '\<close>, a body with no line terminator, the same delimiter
  and letters among \<open>g i m s u y\<close> gives the pattern engine the body with the flags,
  duplicates collapsed and the first occurrence of each letter kept in order. Any other
  spec gives the engine the whole string with no flags.
\<close>

theorem route_compilation:
  "compile_route eng ''*'' = Inr any_path \<and> (\<forall>p. test eng any_path p) \<and>
   (delimited s d body fl \<and> single_line body
      \<longrightarrow> compile_route eng s = newRegExp eng body (collapse [] fl)) \<and>
   (s \<noteq> ''*'' \<and> (\<forall>d body fl. \<not> (delimited s d body fl \<and> single_line body))
      \<longrightarrow> compile_route eng s = newRegExp eng s [])"
  using compile_delimited [of s d body fl eng] compile_other [of s eng] any_path_accepts [of eng]
  by (simp add: compile_route_def)

lemma plain_route: "\<forall>d body fl. \<not> (delimited ''/config'' d body fl \<and> single_line body)"
proof (intro allI notI)
  fix d body fl
  assume "delimited ''/config'' d body fl \<and> single_line body"
  then have "route_match ''/config'' = Some (body, fl)"
    using route_match_delimited by blast
  then show False
    by (simp add: route_match_def delimiters_def flag_letters_def is_line_terminator_def)
qed

theorem route_compilation_witness:
  "compile_route example_engine ''*'' = Inr any_path \<and> test example_engine any_path [] \<and>
   compile_route example_engine ''/a+/gig'' = Inr (RegExp ''a+'' ''gi'') \<and>
   compile_route example_engine ''/config'' = Inr (RegExp ''/config'' [])"
proof -
  have d: "delimited ''/a+/gig'' (CHR ''/'') ''a+'' ''gig'' \<and> single_line ''a+''"
    by (simp add: delimited_def delimiters_def flag_letters_def single_line_def is_line_terminator_def)
  have c: "collapse [] ''gig'' = ''gi''" by simp
  have n: "''/config'' \<noteq> ''*''" by simp
  show ?thesis
    using route_compilation [of example_engine "''/a+/gig''" "CHR ''/''" "''a+''" "''gig''"]
      route_compilation [of example_engine "''/config''"] d c n plain_route
    by (simp add: newRegExp_def example_engine_def)
qed

text \<open>
  Claim C3 as stated fails on a body with a line terminator: the dot of the matching
  expression does not take it, so a spec in delimited form with such a body reaches the
  engine whole and without flags.
\<close>

theorem multiline_body_counterexample:
  "delimited multiline_route (CHR ''/'') (''a'' @ [CHR 0x0A] @ ''b'') [] \<and>
   compile_route example_engine multiline_route = Inr (RegExp multiline_route []) \<and>
   compile_route example_engine multiline_route
     \<noteq> newRegExp example_engine (''a'' @ [CHR 0x0A] @ ''b'') (collapse [] [])"
  by (simp add: delimited_def multiline_route_def delimiters_def compile_route_def
      stringToRegex_def route_match_def flag_letters_def is_line_terminator_def
      newRegExp_def example_engine_def)

section \<open>Registration\<close>

text \<open>
  Claim C9. When the pattern engine refuses what the route spec hands it, \<open>addMiddleware\<close>
  ends with the engine's error and the middleware list as it was. In every other case
  (the spec \<open>*\<close>, an omitted spec, a spec the engine accepts) it appends one entry
  after the existing ones, which stay in place, and does not fail.
\<close>

theorem registration:
  "(route_of route \<noteq> ''*'' \<and>
      \<not> regexp_compiles eng (fst (engine_input (route_of route))) (snd (engine_input (route_of route)))
      \<longrightarrow> addMiddleware eng mw route this
            = (Some (SyntaxError (fst (engine_input (route_of route)))), this)) \<and>
   (route_of route = ''*'' \<or>
      regexp_compiles eng (fst (engine_input (route_of route))) (snd (engine_input (route_of route)))
      \<longrightarrow> addMiddleware eng mw route this
            = (None, this\<lparr>middlewares := middlewares this @
                 [\<lparr>pattern = (if route_of route = ''*'' then any_path
                              else RegExp (fst (engine_input (route_of route)))
                                     (snd (engine_input (route_of route)))),
                   middleware = mw\<rparr>]\<rparr>))"
  by (auto simp: addMiddleware_def route_of_def compile_route_def stringToRegex_def
      engine_input_def newRegExp_def split: option.splits)

theorem registration_witness:
  "addMiddleware example_engine authorize (Some ''('') example_server
     = (Some (SyntaxError ''(''), example_server) \<and>
   addMiddleware example_engine authorize (Some ''/mw/i'') example_server
     = (None, example_server\<lparr>middlewares := middlewares example_server @
          [\<lparr>pattern = RegExp ''mw'' ''i'', middleware = authorize\<rparr>]\<rparr>) \<and>
   addMiddleware example_engine authorize None example_server
     = (None, example_server\<lparr>middlewares := middlewares example_server @
          [\<lparr>pattern = any_path, middleware = authorize\<rparr>]\<rparr>)"
proof -
  have a: "engine_input ''('' = (''('', [])"
    by (simp add: engine_input_def route_match_def delimiters_def)
  have b: "engine_input ''/mw/i'' = (''mw'', ''i'')"
    by (simp add: engine_input_def route_match_def delimiters_def flag_letters_def
        is_line_terminator_def unique_flags_collapse)
  show ?thesis
    using registration [of "Some ''(''" example_engine authorize example_server]
      registration [of "Some ''/mw/i''" example_engine authorize example_server]
      registration [of None example_engine authorize example_server]
    by (simp add: a b route_of_def example_engine_def)
qed

section \<open>The MIME merge\<close>

text \<open>
  Claim C5, amended. With the additions in place, the merge keeps the base table's
  length and order. A base entry keeps its type and name; when additions have its type,
  its extensions are followed by the extensions of the first addition with that type,
  the one \<open>find\<close> answers; when none has, the entry passes through unchanged. An addition
  whose type is the type of no base entry has no entry in the merged table.
\<close>

theorem mime_merge:
  assumes "mimeTypes this = Some additions"
  shows "\<exists>merged. mergedMimeTypes this base = Inr merged \<and> length merged = length base \<and>
     (\<forall>i < length base.
        type (merged ! i) = type (base ! i) \<and> name (merged ! i) = name (base ! i) \<and>
        (\<forall>j < length additions.
           type (additions ! j) = type (base ! i) \<and>
           (\<forall>k < j. type (additions ! k) \<noteq> type (base ! i))
           \<longrightarrow> extensions (merged ! i) = extensions (base ! i) @ extensions (additions ! j)) \<and>
        (\<forall>a. find (\<lambda>item. type item = type (base ! i)) additions = Some a
           \<longrightarrow> extensions (merged ! i) = extensions (base ! i) @ extensions a) \<and>
        ((\<forall>a \<in> set additions. type a \<noteq> type (base ! i)) \<longrightarrow> merged ! i = base ! i)) \<and>
     (\<forall>a \<in> set additions. (\<forall>b \<in> set base. type b \<noteq> type a)
        \<longrightarrow> (\<forall>m \<in> set merged. type m \<noteq> type a))"
proof -
  have keeps: "type (merge_entry additions b) = type b \<and> name (merge_entry additions b) = name b" for b
    by (simp add: merge_entry_def split: option.splits)
  have found: "extensions (merge_entry additions b) = extensions b @ extensions a"
    if "find (\<lambda>item. type item = type b) additions = Some a" for a b
    using that by (simp add: merge_entry_def)
  have first: "extensions (merge_entry additions b) = extensions b @ extensions (additions ! j)"
    if j: "j < length additions" "type (additions ! j) = type b"
      "\<forall>k < j. type (additions ! k) \<noteq> type b" for j b
  proof -
    have "find (\<lambda>item. type item = type b) additions = Some (additions ! j)"
      unfolding find_Some_iff using j by blast
    then show ?thesis by (rule found)
  qed
  have absent: "merge_entry additions b = b" if "\<forall>a \<in> set additions. type a \<noteq> type b" for b
  proof -
    have "find (\<lambda>item. type item = type b) additions = None"
      using that by (simp add: find_None_iff)
    then show ?thesis by (simp add: merge_entry_def)
  qed
  let ?merged = "map (merge_entry additions) base"
  have m: "mergedMimeTypes this base = Inr ?merged"
    using assms by (simp add: mergedMimeTypes_def)
  have each: "type (?merged ! i) = type (base ! i) \<and> name (?merged ! i) = name (base ! i) \<and>
        (\<forall>j < length additions.
           type (additions ! j) = type (base ! i) \<and>
           (\<forall>k < j. type (additions ! k) \<noteq> type (base ! i))
           \<longrightarrow> extensions (?merged ! i) = extensions (base ! i) @ extensions (additions ! j)) \<and>
        (\<forall>a. find (\<lambda>item. type item = type (base ! i)) additions = Some a
           \<longrightarrow> extensions (?merged ! i) = extensions (base ! i) @ extensions a) \<and>
        ((\<forall>a \<in> set additions. type a \<noteq> type (base ! i)) \<longrightarrow> ?merged ! i = base ! i)"
    if "i < length base" for i
  proof -
    have n: "?merged ! i = merge_entry additions (base ! i)"
      using that by simp
    show ?thesis
      unfolding n using keeps [of "base ! i"] found [of "base ! i"] first [of _ "base ! i"]
        absent [of "base ! i"]
      by blast
  qed
  have dropped: "\<forall>m \<in> set ?merged. type m \<noteq> type a"
    if "\<forall>b \<in> set base. type b \<noteq> type a" for a
    using that keeps by auto
  have "length ?merged = length base" by simp
  with m each dropped show ?thesis by blast
qed

theorem mime_merge_witness:
  "mergedMimeTypes (example_server\<lparr>mimeTypes := Some scss_additions\<rparr>) example_table
   = Inr [\<lparr>type = ''text/html'', name = ''html'', extensions = [''html'', ''htm'']\<rparr>,
          \<lparr>type = ''text/css'', name = ''css'', extensions = [''css'', ''scss'']\<rparr>]"
  using mime_merge [of "example_server\<lparr>mimeTypes := Some scss_additions\<rparr>" scss_additions example_table]
  by (simp add: mergedMimeTypes_def merge_entry_def example_table_def scss_additions_def)

text \<open>
  Claim C5 as stated fails for the second of two additions of one type: it has the type
  of a base entry, and its extensions are not appended.
\<close>

theorem second_addition_counterexample:
  "sass_additions ! 1 \<in> set sass_additions \<and>
   type (sass_additions ! 1) = type (example_table ! 1) \<and>
   mergedMimeTypes (example_server\<lparr>mimeTypes := Some sass_additions\<rparr>) example_table
     = Inr [\<lparr>type = ''text/html'', name = ''html'', extensions = [''html'', ''htm'']\<rparr>,
            \<lparr>type = ''text/css'', name = ''css'', extensions = [''css'', ''scss'']\<rparr>] \<and>
   [''css'', ''scss''] \<noteq> extensions (example_table ! 1) @ extensions (sass_additions ! 1)"
  by (simp add: mergedMimeTypes_def merge_entry_def example_table_def sass_additions_def)

section \<open>Defaults of the constructor\<close>

lemma addMiddleware_fields:
  "addMiddleware eng mw route this = (r, this') \<Longrightarrow>
     host this' = host this \<and> port this' = port this \<and> directory this' = directory this \<and>
     subfolder this' = subfolder this \<and> mimeTypes this' = mimeTypes this \<and>
     connectedBefore this' = connectedBefore this"
  by (auto simp: addMiddleware_def split: sum.splits)

lemma addAll_fields:
  "addAll eng xs this = Inr this' \<Longrightarrow>
     host this' = host this \<and> port this' = port this \<and> directory this' = directory this \<and>
     subfolder this' = subfolder this \<and> mimeTypes this' = mimeTypes this \<and>
     connectedBefore this' = connectedBefore this"
proof (induction xs arbitrary: this)
  case Nil
  then show ?case by simp
next
  case (Cons x xs)
  obtain r this1 where a: "addMiddleware eng (reg_middleware x) (reg_route x) this = (r, this1)"
    by (cases "addMiddleware eng (reg_middleware x) (reg_route x) this")
  with Cons.prems have "r = None" and rest: "addAll eng xs this1 = Inr this'"
    by (auto split: option.splits)
  from Cons.IH [OF rest] addMiddleware_fields [OF a] show ?case by simp
qed

lemma constructor_fields:
  assumes "constructor eng (Some c) = Inr this"
  shows "host this = Some (string_or (config_host c) ''localhost'') \<and>
     port this = Some (number_or (config_port c) 62295) \<and>
     directory this = Some (string_or (config_directory c) ''site'') \<and>
     subfolder this = config_subfolder c \<and>
     mimeTypes this = Some (case config_additionalMimeTypes c of None \<Rightarrow> [] | Some a \<Rightarrow> a) \<and>
     connectedBefore this = False"
proof (cases "config_middlewares c")
  case None
  with assms show ?thesis
    by (auto simp: constructor_def uninitialised_def)
next
  case (Some ms)
  with assms obtain this2 where
    a: "addAll eng ms (uninitialised
                 \<lparr>host := Some (string_or (config_host c) ''localhost''),
                  port := Some (number_or (config_port c) 62295),
                  directory := Some (string_or (config_directory c) ''site''),
                  subfolder := config_subfolder c\<rparr>) = Inr this2"
    and b: "this = this2\<lparr>mimeTypes :=
                         Some (case config_additionalMimeTypes c of None \<Rightarrow> [] | Some a \<Rightarrow> a)\<rparr>"
    by (auto simp: constructor_def split: sum.splits)
  from addAll_fields [OF a] b show ?thesis
    by (simp add: uninitialised_def)
qed

text \<open>
  Claim C10. When a configuration object is given, a falsy host, port or directory
  (an empty string, the number 0, or an omitted field) gives the default
  \<open>localhost\<close>, 62295 or \<open>site\<close>; the constructed server is the one constructed with
  those fields omitted, and no server has an empty host, the port 0 or an empty
  directory.
\<close>

theorem falsy_fields_default:
  assumes "constructor eng (Some c) = Inr this"
  shows "(\<not> truthy (config_host c) \<longrightarrow> host this = Some ''localhost'') \<and>
     (config_port c = None \<or> config_port c = Some 0 \<longrightarrow> port this = Some 62295) \<and>
     (\<not> truthy (config_directory c) \<longrightarrow> directory this = Some ''site'') \<and>
     host this \<noteq> Some [] \<and> port this \<noteq> Some 0 \<and> directory this \<noteq> Some [] \<and>
     constructor eng
       (Some (c\<lparr>config_host := if truthy (config_host c) then config_host c else None,
                config_port := if config_port c = Some 0 then None else config_port c,
                config_directory :=
                  if truthy (config_directory c) then config_directory c else None\<rparr>))
       = Inr this"
proof -
  have same: "constructor eng
       (Some (c\<lparr>config_host := if truthy (config_host c) then config_host c else None,
                config_port := if config_port c = Some 0 then None else config_port c,
                config_directory :=
                  if truthy (config_directory c) then config_directory c else None\<rparr>))
       = constructor eng (Some c)"
    by (simp add: constructor_def string_or_def number_or_def truthy_def split: option.splits)
  show ?thesis
    using constructor_fields [OF assms] same assms
    by (auto simp: string_or_def number_or_def truthy_def split: option.splits if_splits)
qed


lemma constructed: "constructor example_engine (Some example_config) = Inr constructed_server"
  by (simp add: constructor_def example_config_def example_server_def uninitialised_def
      string_or_def number_or_def addMiddleware_def compile_route_def stringToRegex_def
      route_match_def delimiters_def newRegExp_def example_engine_def constructed_server_def)

theorem falsy_fields_default_witness:
  "constructor example_engine (Some falsy_config) = Inr constructed_server \<and>
   constructor example_engine (Some example_config) = Inr constructed_server \<and>
   host constructed_server = Some ''localhost'' \<and> port constructed_server = Some 62295 \<and>
   directory constructed_server = Some ''site''"
proof -
  have c: "constructor example_engine (Some falsy_config) = Inr constructed_server"
    by (simp add: constructor_def example_config_def example_server_def uninitialised_def
        string_or_def number_or_def addMiddleware_def compile_route_def stringToRegex_def
        route_match_def delimiters_def newRegExp_def example_engine_def constructed_server_def
        falsy_config_def)
  show ?thesis
    using falsy_fields_default [OF c] c
    by (simp add: example_config_def truthy_def falsy_config_def)
qed

text \<open>
  Claim C8 at a construction without a configuration object: the constructor assigns
  nothing, so host, port, directory and the MIME additions stay undefined, and starting
  such a server fails in the merge.
\<close>

theorem constructor_without_config:
  "constructor eng None = Inr uninitialised \<and>
   host uninitialised = None \<and> port uninitialised = None \<and> directory uninitialised = None \<and>
   mimeTypes uninitialised = None \<and>
   startAsync example_platform uninitialised = Inl (TypeError ''find'')"
  by (simp add: constructor_def uninitialised_def startAsync_def mergedMimeTypes_def
      example_platform_def example_table_def)

section \<open>The first connection\<close>

lemma apply_operation_flag:
  "connectedBefore (snd (apply_operation env x this)) = (connectedBefore this \<or> is_Connection x)"
proof (cases x)
  case (AddMiddleware mw route)
  then show ?thesis
    using addMiddleware_fields [of "pattern_engine env" mw route this]
    by (cases "addMiddleware (pattern_engine env) mw route this") (simp add: is_Connection_def)
next
  case StartAsync
  then show ?thesis
    by (auto simp: is_Connection_def startAsync_def split: sum.splits)
next
  case Connection
  then show ?thesis by (simp add: is_Connection_def onConnection_def)
qed (simp_all add: is_Connection_def)

lemma connection_broadcast:
  "broadcasts (fst (apply_operation env Connection this)) = (if connectedBefore this then 0 else 1)"
  by (simp add: onConnection_def refreshBrowser_def broadcasts_def)

lemma run_connections:
  "connection_broadcasts env xs this =
     (if connectedBefore this \<or> connections xs = 0 then replicate (connections xs) 0
      else 1 # replicate (connections xs - 1) 0) \<and>
   connectedBefore (snd (run env xs this)) = (connectedBefore this \<or> 0 < connections xs)"
proof (induction xs arbitrary: this)
  case Nil
  show ?case by (simp add: connection_broadcasts_def connections_def)
next
  case (Cons x xs)
  obtain e this1 where a: "apply_operation env x this = (e, this1)"
    by (cases "apply_operation env x this")
  obtain es this2 where r: "run env xs this1 = (es, this2)"
    by (cases "run env xs this1")
  have flag: "connectedBefore this1 = (connectedBefore this \<or> is_Connection x)"
    using apply_operation_flag [of env x this] a by simp
  have tail: "connection_broadcasts env (x # xs) this =
      (if is_Connection x then [broadcasts e] else []) @ connection_broadcasts env xs this1"
    using a r by (simp add: connection_broadcasts_def)
  have head: "is_Connection x \<Longrightarrow> broadcasts e = (if connectedBefore this then 0 else 1)"
    using connection_broadcast [of env this] a by (cases x) (simp_all add: is_Connection_def)
  have count: "connections (x # xs) = (if is_Connection x then Suc (connections xs) else connections xs)"
    by (simp add: connections_def)
  have final: "snd (run env (x # xs) this) = snd (run env xs this1)"
    using a r by simp
  show ?case
    using Cons.IH [of this1] flag tail head count final
    by (cases "is_Connection x"; cases "connectedBefore this") (auto simp: replicate_app_Cons_same)
qed

text \<open>
  Claim C7. From a server as constructed, over any sequence of operations, the first
  connection triggers one broadcast and every later connection none; the flag is set
  from the first connection on. Once the flag is set, no operation and no sequence of
  operations resets it.
\<close>

theorem first_connection_broadcasts_once:
  assumes "constructor eng config = Inr this"
  shows "connection_broadcasts env xs this =
           (if connections xs = 0 then [] else 1 # replicate (connections xs - 1) 0) \<and>
         connectedBefore (snd (run env xs this)) = (0 < connections xs) \<and>
         (connectedBefore that \<longrightarrow> connectedBefore (snd (apply_operation env x that))) \<and>
         (connectedBefore that \<longrightarrow> connectedBefore (snd (run env ys that)))"
proof -
  have "\<not> connectedBefore this"
  proof (cases config)
    case None
    with assms show ?thesis by (auto simp: constructor_def uninitialised_def)
  next
    case (Some c)
    with assms constructor_fields [of eng c this] show ?thesis by simp
  qed
  then show ?thesis
    using run_connections [of env xs this] run_connections [of env ys that]
      apply_operation_flag [of env x that]
    by simp
qed


theorem first_connection_broadcasts_once_witness:
  "connection_broadcasts example_platform
     [Connection, RefreshBrowser, Connection, Disconnect True, Connection] constructed_server
     = [1, 0, 0] \<and>
   connectedBefore (snd (run example_platform
     [Connection, RefreshBrowser, Connection, Disconnect True, Connection] constructed_server)) \<and>
   connectedBefore (snd (apply_operation example_platform Connection
     (constructed_server\<lparr>connectedBefore := True\<rparr>))) \<and>
   connectedBefore (snd (run example_platform [StartAsync, Stop, Connection]
     (constructed_server\<lparr>connectedBefore := True\<rparr>)))"
  using first_connection_broadcasts_once [OF constructed, of example_platform
      "[Connection, RefreshBrowser, Connection, Disconnect True, Connection]"
      "constructed_server\<lparr>connectedBefore := True\<rparr>" Connection "[StartAsync, Stop, Connection]"]
  by (simp add: connections_def is_Connection_def)

section \<open>The dispatch protocol\<close>


lemma chain_runs_nonempty: "ms \<noteq> [] \<Longrightarrow> chain_runs req ms w \<noteq> []"
  by (cases ms) simp_all

lemma Next_update: "(n :: Next)\<lparr>status := b\<rparr> = \<lparr>status = b\<rparr>"
  by (cases n) simp

lemma run_chain_runs:
  "run_chain req ms st =
     \<lparr>res = res st @ concat (map writes (chain_runs req ms (res st))),
      console = console st @ rejections (chain_runs req ms (res st)),
      continuation = (if ms = [] then continuation st
                      else \<lparr>status = invoked (last (chain_runs req ms (res st)))\<rparr>),
      runs = runs st @ chain_runs req ms (res st)\<rparr>"
proof (induction ms arbitrary: st)
  case Nil
  show ?case by (simp add: rejections_def)
next
  case (Cons m ms)
  let ?r = "m req (res st)"
  show ?case
  proof (cases "invoked ?r")
    case False
    then show ?thesis
      by (simp add: Let_def reset_def invoke_def rejections_def Next_update)
  next
    case True
    let ?st2 = "st\<lparr>res := res st @ writes ?r,
                   console := console st @
                     (case rejection ?r of None \<Rightarrow> [] | Some e \<Rightarrow> [ConsoleError e]),
                   continuation := \<lparr>status = True\<rparr>,
                   runs := runs st @ [?r]\<rparr>"
    have step: "run_chain req (m # ms) st = run_chain req ms ?st2"
      using True by (simp add: Let_def reset_def invoke_def Next_update)
    show ?thesis
      unfolding step Cons.IH [of ?st2]
      using True chain_runs_nonempty [of ms req "res st @ writes ?r"]
      by (simp add: rejections_def)
  qed
qed

lemma chain_runs_prefix_invoked:
  "Suc i < length (chain_runs req ms w) \<Longrightarrow> invoked (chain_runs req ms w ! i)"
proof (induction ms arbitrary: w i)
  case Nil
  then show ?case by simp
next
  case (Cons m ms)
  then show ?case
    by (cases i) (auto split: if_splits)
qed

lemma chain_runs_length: "length (chain_runs req ms w) \<le> length ms"
  by (induction ms arbitrary: w) auto

lemma chain_runs_nth:
  "i < length (chain_runs req ms w) \<Longrightarrow>
     chain_runs req ms w ! i = (ms ! i) req (w @ concat (map writes (take i (chain_runs req ms w))))"
proof (induction ms arbitrary: w i)
  case Nil
  then show ?case by simp
next
  case (Cons m ms)
  show ?case
  proof (cases i)
    case 0
    then show ?thesis by simp
  next
    case (Suc j)
    with Cons.prems have inv: "invoked (m req w)" and j: "j < length (chain_runs req ms (w @ writes (m req w)))"
      by (auto split: if_splits)
    from Cons.IH [OF j] inv Suc show ?thesis by simp
  qed
qed

lemma stopped_last:
  "list_ex (\<lambda>r. \<not> invoked r) (chain_runs req ms w)
     = (ms \<noteq> [] \<and> \<not> invoked (last (chain_runs req ms w)))"
proof (induction ms arbitrary: w)
  case Nil
  show ?case by simp
next
  case (Cons m ms)
  show ?case
    using Cons.IH [of "w @ writes (m req w)"] chain_runs_nonempty [of ms req "w @ writes (m req w)"]
    by (cases ms) auto
qed

lemma listener_handled:
  "handled (requestListener env this req) = chain_runs req (matching env this req) []"
  by (simp add: requestListener_def run_chain_runs Let_def)

lemma listener_resolver:
  "resolver_invoked (requestListener env this req)
     = (matching env this req = [] \<or> invoked (last (chain_runs req (matching env this req) [])))"
  by (simp add: requestListener_def run_chain_runs Let_def generateNext_def)



lemma listener_stopped:
  assumes "stopped (requestListener env this req)"
  shows "response (requestListener env this req)
           = concat (map writes (chain_runs req (matching env this req) [])) \<and>
         printed (requestListener env this req) = rejections (chain_runs req (matching env this req) []) \<and>
         escaped (requestListener env this req) = None \<and>
         \<not> resolver_invoked (requestListener env this req)"
proof -
  have "matching env this req \<noteq> [] \<and> \<not> invoked (last (chain_runs req (matching env this req) []))"
    using assms by (simp add: stopped_def listener_handled stopped_last)
  then show ?thesis
    by (simp add: requestListener_def run_chain_runs Let_def)
qed

lemma test_compiled: "test eng (RegExp src fl) s = regexp_test eng src fl s"
  by (simp add: test_def)



lemma rejecting_matching:
  "matching example_platform rejecting_server \<lparr>url = ''/''\<rparr> = [authorize, rejecting, from_middleware]"
  "matching example_platform rejecting_after_next_server \<lparr>url = ''/''\<rparr> = [rejecting_after_next, authorize]"
  by (simp_all add: matching_def rejecting_server_def rejecting_after_next_server_def
      example_server_def any_path_accepts)



section \<open>Handlers that reject or raise\<close>

lemma calls_made_nonempty: "cs \<noteq> [] \<Longrightarrow> calls_made req cs w \<noteq> []"
  by (cases cs) (auto split: handler_call.splits)

lemma run_calls_made:
  "run_calls req cs st = (st', calls, raised) \<Longrightarrow>
     calls = calls_made req cs (res st) \<and>
     res st' = res st @ writes_of calls \<and>
     console st' = console st @ rejections_of calls \<and>
     raised = raised_of calls \<and>
     (cs \<noteq> [] \<and> raised = None \<longrightarrow>
        (\<exists>r. last calls = Returned r \<and> status (continuation st') = invoked r))"
proof (induction cs arbitrary: st st' calls raised)
  case Nil
  then show ?case by (simp add: writes_of_def rejections_of_def raised_of_def)
next
  case (Cons c cs)
  show ?case
  proof (cases "c req (res st)")
    case (Raised w called e)
    with Cons.prems show ?thesis
      by (auto simp: Let_def reset_def writes_of_def rejections_of_def raised_of_def)
  next
    case (Returned r)
    show ?thesis
    proof (cases "invoked r")
      case False
      with Returned Cons.prems show ?thesis
        by (auto simp: Let_def reset_def invoke_def writes_of_def rejections_of_def raised_of_def
            Next_update)
    next
      case True
      let ?st2 = "st\<lparr>res := res st @ writes r,
                   console := console st @
                     (case rejection r of None \<Rightarrow> [] | Some e \<Rightarrow> [ConsoleError e]),
                   continuation := \<lparr>status = True\<rparr>,
                   runs := runs st @ [r]\<rparr>"
      obtain st3 made3 raised3 where rec: "run_calls req cs ?st2 = (st3, made3, raised3)"
        by (cases "run_calls req cs ?st2") auto
      have step: "run_calls req (c # cs) st = (st3, Returned r # made3, raised3)"
        using Returned True rec by (simp add: Let_def reset_def invoke_def Next_update)
      with Cons.prems have eq: "st' = st3" "calls = Returned r # made3" "raised = raised3"
        by simp_all
      from Cons.IH [OF rec] have ih:
        "made3 = calls_made req cs (res st @ writes r)"
        "res st3 = res st @ writes r @ writes_of made3"
        "console st3 = console st @
            (case rejection r of None \<Rightarrow> [] | Some e \<Rightarrow> [ConsoleError e]) @ rejections_of made3"
        "raised3 = raised_of made3"
        by simp_all
      from Cons.IH [OF rec] have ih5:
        "cs \<noteq> [] \<and> raised3 = None \<longrightarrow>
           (\<exists>r'. last made3 = Returned r' \<and> status (continuation st3) = invoked r')"
        by blast
      have empty: "cs = [] \<Longrightarrow> made3 = [] \<and> st3 = ?st2"
        using rec by auto
      have nonempty: "cs \<noteq> [] \<Longrightarrow> made3 \<noteq> []"
        using ih(1) calls_made_nonempty by simp
      show ?thesis
      proof (cases "cs = []")
        case True
        with empty eq ih Returned \<open>invoked r\<close> show ?thesis
          by (simp add: writes_of_def rejections_of_def raised_of_def)
      next
        case False
        with nonempty eq ih ih5 Returned \<open>invoked r\<close> show ?thesis
          by (simp add: writes_of_def rejections_of_def raised_of_def)
      qed
    qed
  qed
qed

lemma calls_made_prefix:
  "Suc i < length (calls_made req cs w) \<Longrightarrow>
     \<exists>r. calls_made req cs w ! i = Returned r \<and> invoked r"
proof (induction cs arbitrary: w i)
  case Nil
  then show ?case by simp
next
  case (Cons c cs)
  then show ?case
    by (cases i; cases "c req w") (auto split: if_splits)
qed

lemma calls_made_nth:
  "i < length (calls_made req cs w) \<Longrightarrow>
     calls_made req cs w ! i = (cs ! i) req (w @ writes_of (take i (calls_made req cs w)))"
proof (induction cs arbitrary: w i)
  case Nil
  then show ?case by simp
next
  case (Cons c cs)
  show ?case
  proof (cases i)
    case 0
    then show ?thesis by (cases "c req w") (simp_all add: writes_of_def)
  next
    case (Suc j)
    with Cons.prems obtain r where r: "c req w = Returned r" "invoked r"
      and j: "j < length (calls_made req cs (w @ writes r))"
      by (cases "c req w") (auto split: if_splits)
    from Cons.IH [OF j] r Suc show ?thesis by (simp add: writes_of_def)
  qed
qed

lemma calls_made_length: "length (calls_made req cs w) \<le> length cs"
proof (induction cs arbitrary: w)
  case Nil
  show ?case by simp
next
  case (Cons c cs)
  show ?case
    by (cases "c req w") (simp_all add: Cons.IH)
qed

lemma calls_made_continues:
  "i < length (calls_made req cs w) \<Longrightarrow> calls_made req cs w ! i = Returned r \<Longrightarrow> invoked r
     \<Longrightarrow> Suc i < length cs \<Longrightarrow> Suc i < length (calls_made req cs w)"
proof (induction cs arbitrary: w i)
  case Nil
  then show ?case by simp
next
  case (Cons c cs)
  show ?case
  proof (cases i)
    case 0
    with Cons.prems have c: "c req w = Returned r"
      by (cases "c req w") (auto split: if_splits)
    have "cs \<noteq> []" using Cons.prems(4) 0 by auto
    then have "calls_made req cs (w @ writes r) \<noteq> []"
      by (rule calls_made_nonempty)
    with c Cons.prems(3) 0 show ?thesis by (cases "calls_made req cs (w @ writes r)") simp_all
  next
    case (Suc j)
    with Cons.prems obtain r0 where r0: "c req w = Returned r0" "invoked r0"
      and j: "j < length (calls_made req cs (w @ writes r0))"
      by (cases "c req w") (auto split: if_splits)
    have "calls_made req cs (w @ writes r0) ! j = Returned r"
      using Cons.prems(2) r0 Suc by simp
    from Cons.IH [OF j this Cons.prems(3)] Cons.prems(4) Suc r0 show ?thesis by simp
  qed
qed

lemma calls_made_async:
  "calls_made req (map async ms) w = map Returned (chain_runs req ms w)"
  by (induction ms arbitrary: w) (simp_all add: async_def)


lemma run_calls_async:
  "run_calls req (map async ms) st
     = (run_chain req ms st, map Returned (chain_runs req ms (res st)), None)"
proof (induction ms arbitrary: st)
  case Nil
  show ?case by simp
next
  case (Cons m ms)
  have head: "async m req (res st) = Returned (m req (res st))"
    by (simp add: async_def)
  show ?case
  proof (cases "invoked (m req (res st))")
    case False
    then show ?thesis
      using head by (simp add: Let_def reset_def invoke_def Next_update)
  next
    case True
    then show ?thesis
      using head by (simp add: Let_def reset_def invoke_def Next_update Cons.IH)
  qed
qed

lemma dispatch_async:
  "result (dispatch env this (map async (matching env this req)) req) = requestListener env this req"
  by (simp add: dispatch_def run_calls_async requestListener_def Let_def)

lemma run_calls_form:
  obtains st' where
    "run_calls req cs st = (st', calls_made req cs (res st), raised_of (calls_made req cs (res st)))"
    and "res st' = res st @ writes_of (calls_made req cs (res st))"
    and "console st' = console st @ rejections_of (calls_made req cs (res st))"
    and "cs \<noteq> [] \<and> raised_of (calls_made req cs (res st)) = None \<longrightarrow>
           (\<exists>r. last (calls_made req cs (res st)) = Returned r \<and> status (continuation st') = invoked r)"
proof -
  obtain st' calls raised where r: "run_calls req cs st = (st', calls, raised)"
    by (cases "run_calls req cs st") auto
  from run_calls_made [OF r] r that [of st'] show ?thesis by blast
qed

lemma dispatch_made: "made (dispatch env this matched req) = calls_made req matched []"
proof -
  obtain st' where "run_calls req matched
      \<lparr>res = [], console = [], continuation = generateNext, runs = []\<rparr>
        = (st', calls_made req matched [], raised_of (calls_made req matched []))"
    using run_calls_form [of req matched "\<lparr>res = [], console = [], continuation = generateNext, runs = []\<rparr>"]
    by auto
  then show ?thesis
    by (cases "raised_of (calls_made req matched [])") (simp_all add: dispatch_def)
qed

lemma dispatch_raised:
  assumes "raised_of (calls_made req matched []) = Some e"
  shows "response (result (dispatch env this matched req)) = writes_of (calls_made req matched []) \<and>
         printed (result (dispatch env this matched req)) = rejections_of (calls_made req matched []) \<and>
         \<not> resolver_invoked (result (dispatch env this matched req)) \<and>
         escaped (result (dispatch env this matched req)) = Some e"
proof -
  obtain st' where "run_calls req matched
      \<lparr>res = [], console = [], continuation = generateNext, runs = []\<rparr>
        = (st', calls_made req matched [], raised_of (calls_made req matched []))"
    and "res st' = writes_of (calls_made req matched [])"
    and "console st' = rejections_of (calls_made req matched [])"
    using run_calls_form [of req matched "\<lparr>res = [], console = [], continuation = generateNext, runs = []\<rparr>"]
    by auto
  with assms show ?thesis
    by (simp add: dispatch_def)
qed

lemma dispatch_stopped:
  assumes "raised_of (calls_made req matched []) = None"
    and "last (calls_made req matched []) = Returned r" and "\<not> invoked r" and "matched \<noteq> []"
  shows "response (result (dispatch env this matched req)) = writes_of (calls_made req matched []) \<and>
         printed (result (dispatch env this matched req)) = rejections_of (calls_made req matched []) \<and>
         \<not> resolver_invoked (result (dispatch env this matched req)) \<and>
         escaped (result (dispatch env this matched req)) = None"
proof -
  obtain st' where "run_calls req matched
      \<lparr>res = [], console = [], continuation = generateNext, runs = []\<rparr>
        = (st', calls_made req matched [], raised_of (calls_made req matched []))"
    and "res st' = writes_of (calls_made req matched [])"
    and "console st' = rejections_of (calls_made req matched [])"
    and "matched \<noteq> [] \<and> raised_of (calls_made req matched []) = None \<longrightarrow>
           (\<exists>r. last (calls_made req matched []) = Returned r \<and> status (continuation st') = invoked r)"
    using run_calls_form [of req matched "\<lparr>res = [], console = [], continuation = generateNext, runs = []\<rparr>"]
    by auto
  with assms show ?thesis
    by (auto simp: dispatch_def)
qed

lemma dispatch_continued:
  assumes "raised_of (calls_made req matched []) = None"
    and "last (calls_made req matched []) = Returned r" and "invoked r" and "matched \<noteq> []"
  shows "resolver_invoked (result (dispatch env this matched req))"
proof -
  obtain st' where "run_calls req matched
      \<lparr>res = [], console = [], continuation = generateNext, runs = []\<rparr>
        = (st', calls_made req matched [], raised_of (calls_made req matched []))"
    and "res st' = writes_of (calls_made req matched [])"
    and "console st' = rejections_of (calls_made req matched [])"
    and "matched \<noteq> [] \<and> raised_of (calls_made req matched []) = None \<longrightarrow>
           (\<exists>r. last (calls_made req matched []) = Returned r \<and> status (continuation st') = invoked r)"
    using run_calls_form [of req matched "\<lparr>res = [], console = [], continuation = generateNext, runs = []\<rparr>"]
    by auto
  with assms show ?thesis
    by (auto simp: dispatch_def Let_def)
qed

lemma dispatch_printed:
  "set (rejections_of (calls_made req matched [])) \<subseteq> set (printed (result (dispatch env this matched req)))"
proof -
  obtain st' where "run_calls req matched
      \<lparr>res = [], console = [], continuation = generateNext, runs = []\<rparr>
        = (st', calls_made req matched [], raised_of (calls_made req matched []))"
    and "console st' = rejections_of (calls_made req matched [])"
    using run_calls_form [of req matched "\<lparr>res = [], console = [], continuation = generateNext, runs = []\<rparr>"]
    by auto
  then show ?thesis
    by (cases "raised_of (calls_made req matched [])") (auto simp: dispatch_def Let_def)
qed

lemma dispatch_escaped:
  assumes "escaped (result (dispatch env this matched req)) = Some x"
  shows "resolver_invoked (result (dispatch env this matched req)) \<or>
     raised_of (calls_made req matched []) = Some x"
proof -
  obtain st' where "run_calls req matched
      \<lparr>res = [], console = [], continuation = generateNext, runs = []\<rparr>
        = (st', calls_made req matched [], raised_of (calls_made req matched []))"
    using run_calls_form [of req matched "\<lparr>res = [], console = [], continuation = generateNext, runs = []\<rparr>"]
    by auto
  with assms show ?thesis
    by (cases "raised_of (calls_made req matched [])") (auto simp: dispatch_def Let_def split: if_splits)
qed


text \<open>
  Claim C2, amended. Take the handler called at position \<open>i\<close> of the matched handlers.
  If the promise it returned is rejected, the rejection is printed to the console. If it
  had not invoked the continuation before, no handler after it is called, the resolver
  is not invoked, nothing leaves the listener, and the response is what the handlers up
  to and including that one wrote. If it had invoked the continuation, the chain goes
  on: the next matched handler is called, or the resolver after the last one. If it
  raises instead of returning a promise, no
  handler after it is called and the resolver is not invoked, but the failure is not
  printed and the exception leaves the listener. Whatever leaves the listener was raised
  by a handler or thrown by the resolver, never a rejection; with async handlers the
  dispatch is the request listener and no handler raises.
\<close>

theorem rejection_stops_chain:
  assumes "out = dispatch env this matched req" and "i < length (made out)"
  shows "made out ! i = (matched ! i) req (writes_of (take i (made out))) \<and>
    (\<forall>r e. made out ! i = Returned r \<and> rejection r = Some e \<longrightarrow>
       ConsoleError e \<in> set (printed (result out)) \<and>
       (\<not> invoked r \<longrightarrow>
          length (made out) = Suc i \<and> \<not> resolver_invoked (result out) \<and>
          escaped (result out) = None \<and> response (result out) = writes_of (made out))) \<and>
    (\<forall>w called e. made out ! i = Raised w called e \<longrightarrow>
       length (made out) = Suc i \<and> \<not> resolver_invoked (result out) \<and>
       escaped (result out) = Some e \<and> response (result out) = writes_of (made out) \<and>
       printed (result out) = rejections_of (made out)) \<and>
    (\<forall>x. escaped (result out) = Some x \<longrightarrow>
       resolver_invoked (result out) \<or> raised_of (made out) = Some x) \<and>
    (matched = map async (matching env this req) \<longrightarrow>
       result out = requestListener env this req \<and> raised_of (made out) = None) \<and>
    (\<forall>r. made out ! i = Returned r \<and> invoked r \<longrightarrow>
       (Suc i < length matched \<longrightarrow> Suc i < length (made out)) \<and>
       (Suc i = length matched \<longrightarrow> resolver_invoked (result out)))"
proof -
  let ?calls = "calls_made req matched []"
  have m: "made out = ?calls"
    using assms(1) by (simp add: dispatch_made)
  have i: "i < length ?calls"
    using assms(2) m by simp
  have ne: "matched \<noteq> []"
    using i by auto
  have nth: "made out ! i = (matched ! i) req (writes_of (take i (made out)))"
    using calls_made_nth [OF i] m by simp
  have last_i: "last ?calls = ?calls ! i" if "length ?calls = Suc i"
  proof -
    have "?calls \<noteq> []" using that by auto
    then have "last ?calls = ?calls ! (length ?calls - 1)" by (rule last_conv_nth)
    then show ?thesis using that by simp
  qed
  have rejected: "ConsoleError e \<in> set (printed (result out)) \<and>
       (\<not> invoked r \<longrightarrow>
          length (made out) = Suc i \<and> \<not> resolver_invoked (result out) \<and>
          escaped (result out) = None \<and> response (result out) = writes_of (made out))"
    if a: "made out ! i = Returned r \<and> rejection r = Some e" for r e
  proof
    have "ConsoleError e \<in> set (call_rejection (?calls ! i))"
      using a m by simp
    moreover have "?calls ! i \<in> set ?calls"
      using i by simp
    ultimately have "ConsoleError e \<in> set (rejections_of ?calls)"
      unfolding rejections_of_def by (simp only: set_concat set_map) blast
    then show "ConsoleError e \<in> set (printed (result out))"
      using dispatch_printed [of req matched env this] assms(1) by auto
    show "\<not> invoked r \<longrightarrow>
          length (made out) = Suc i \<and> \<not> resolver_invoked (result out) \<and>
          escaped (result out) = None \<and> response (result out) = writes_of (made out)"
    proof
      assume n: "\<not> invoked r"
      have len: "length ?calls = Suc i"
        using calls_made_prefix [of i req matched "[]"] i a m n
        by (cases "Suc i < length ?calls") auto
      have l: "last ?calls = Returned r"
        using last_i [OF len] a m by simp
      then have "raised_of ?calls = None"
        using i by (auto simp: raised_of_def)
      from dispatch_stopped [OF this l n ne, of env this] len m assms(1)
      show "length (made out) = Suc i \<and> \<not> resolver_invoked (result out) \<and>
          escaped (result out) = None \<and> response (result out) = writes_of (made out)"
        by simp
    qed
  qed
  have raised: "length (made out) = Suc i \<and> \<not> resolver_invoked (result out) \<and>
       escaped (result out) = Some e \<and> response (result out) = writes_of (made out) \<and>
       printed (result out) = rejections_of (made out)"
    if a: "made out ! i = Raised w called e" for w called e
  proof -
    have len: "length ?calls = Suc i"
      using calls_made_prefix [of i req matched "[]"] i a m
      by (cases "Suc i < length ?calls") auto
    have "last ?calls = Raised w called e"
      using last_i [OF len] a m by simp
    then have "raised_of ?calls = Some e"
      using i by (auto simp: raised_of_def)
    from dispatch_raised [OF this, of env this] len m assms(1) show ?thesis by simp
  qed
  have esc: "resolver_invoked (result out) \<or> raised_of (made out) = Some x"
    if "escaped (result out) = Some x" for x
    using dispatch_escaped [of env this matched req x] that m assms(1) by simp
  have link: "result out = requestListener env this req \<and> raised_of (made out) = None"
    if a: "matched = map async (matching env this req)"
  proof
    show "result out = requestListener env this req"
      using a assms(1) dispatch_async by simp
    have "?calls = map Returned (chain_runs req (matching env this req) [])"
      using a calls_made_async by simp
    then show "raised_of (made out) = None"
      using m by (auto simp: raised_of_def last_map)
  qed
  have continued: "(Suc i < length matched \<longrightarrow> Suc i < length (made out)) \<and>
       (Suc i = length matched \<longrightarrow> resolver_invoked (result out))"
    if a: "made out ! i = Returned r \<and> invoked r" for r
  proof (intro conjI impI)
    assume "Suc i < length matched"
    with calls_made_continues [OF i, of r] a m show "Suc i < length (made out)" by simp
  next
    assume e: "Suc i = length matched"
    have len: "length ?calls = Suc i"
      using calls_made_length [of req matched "[]"] i e by simp
    have l: "last ?calls = Returned r"
      using last_i [OF len] a m by simp
    then have "raised_of ?calls = None"
      using i by (auto simp: raised_of_def)
    from dispatch_continued [OF this l _ ne, of env this] a assms(1)
    show "resolver_invoked (result out)" by simp
  qed
  from nth rejected raised esc link continued show ?thesis by blast
qed


lemma rejecting_calls:
  "calls_made \<lparr>url = ''/''\<rparr> (map async [authorize, rejecting, from_middleware]) []
     = [Returned (authorize \<lparr>url = ''/''\<rparr> []),
        Returned (rejecting \<lparr>url = ''/''\<rparr> [SetHeader ''authorization'' ''yo''])]"
  unfolding calls_made_async by (simp add: authorize_def rejecting_def)

lemma raising_calls:
  "calls_made \<lparr>url = ''/''\<rparr> [async authorize, raising, async from_middleware] []
     = [Returned (authorize \<lparr>url = ''/''\<rparr> []),
        Raised [SetHeader ''x-step'' ''1''] False (HandlerError ''boom'')]"
  by (simp add: async_def authorize_def raising_def)

theorem rejection_stops_chain_witness:
  "result (dispatch example_platform rejecting_server
       (map async (matching example_platform rejecting_server \<lparr>url = ''/''\<rparr>)) \<lparr>url = ''/''\<rparr>)
     = requestListener example_platform rejecting_server \<lparr>url = ''/''\<rparr> \<and>
   ConsoleError (HandlerError ''boom'')
     \<in> set (printed (requestListener example_platform rejecting_server \<lparr>url = ''/''\<rparr>)) \<and>
   \<not> resolver_invoked (requestListener example_platform rejecting_server \<lparr>url = ''/''\<rparr>) \<and>
   escaped (requestListener example_platform rejecting_server \<lparr>url = ''/''\<rparr>) = None \<and>
   response (requestListener example_platform rejecting_server \<lparr>url = ''/''\<rparr>)
     = [SetHeader ''authorization'' ''yo'', SetHeader ''x-step'' ''1''] \<and>
   length (made (dispatch example_platform example_server
       [async authorize, raising, async from_middleware] \<lparr>url = ''/''\<rparr>)) = 2 \<and>
   \<not> resolver_invoked (result (dispatch example_platform example_server
       [async authorize, raising, async from_middleware] \<lparr>url = ''/''\<rparr>)) \<and>
   escaped (result (dispatch example_platform example_server
       [async authorize, raising, async from_middleware] \<lparr>url = ''/''\<rparr>))
     = Some (HandlerError ''boom'') \<and>
   printed (result (dispatch example_platform example_server
       [async authorize, raising, async from_middleware] \<lparr>url = ''/''\<rparr>)) = [] \<and>
   response (result (dispatch example_platform example_server
       [async authorize, raising, async from_middleware] \<lparr>url = ''/''\<rparr>))
     = [SetHeader ''authorization'' ''yo'', SetHeader ''x-step'' ''1'']"
proof -
  let ?req = "\<lparr>url = ''/''\<rparr>"
  let ?a = "dispatch example_platform rejecting_server
       (map async (matching example_platform rejecting_server ?req)) ?req"
  let ?b = "dispatch example_platform example_server
       [async authorize, raising, async from_middleware] ?req"
  have ma: "made ?a = [Returned (authorize ?req []),
        Returned (rejecting ?req [SetHeader ''authorization'' ''yo''])]"
    using rejecting_calls by (simp add: dispatch_made rejecting_matching)
  have mb: "made ?b = [Returned (authorize ?req []),
        Raised [SetHeader ''x-step'' ''1''] False (HandlerError ''boom'')]"
    using raising_calls by (simp add: dispatch_made)
  have la: "1 < length (made ?a)" and lb: "1 < length (made ?b)"
    by (simp_all add: ma mb)
  note ta = rejection_stops_chain [OF refl la]
  note tb = rejection_stops_chain [OF refl lb]
  have pa: "made ?a ! 1 = Returned (rejecting ?req [SetHeader ''authorization'' ''yo'']) \<and>
      rejection (rejecting ?req [SetHeader ''authorization'' ''yo'']) = Some (HandlerError ''boom'')"
    by (simp add: ma rejecting_def)
  have pb: "made ?b ! 1 = Raised [SetHeader ''x-step'' ''1''] False (HandlerError ''boom'')"
    by (simp add: mb)
  have a1: "result ?a = requestListener example_platform rejecting_server ?req"
    using ta [THEN conjunct2, THEN conjunct2, THEN conjunct2, THEN conjunct2, THEN conjunct1]
    by simp
  have a2: "ConsoleError (HandlerError ''boom'') \<in> set (printed (result ?a)) \<and>
      \<not> resolver_invoked (result ?a) \<and> escaped (result ?a) = None \<and>
      response (result ?a) = [SetHeader ''authorization'' ''yo'', SetHeader ''x-step'' ''1'']"
    using ta [THEN conjunct2, THEN conjunct1, rule_format, OF pa]
    by (simp add: ma rejecting_def authorize_def writes_of_def)
  have a: "result ?a = requestListener example_platform rejecting_server ?req \<and>
      ConsoleError (HandlerError ''boom'') \<in> set (printed (result ?a)) \<and>
      \<not> resolver_invoked (result ?a) \<and> escaped (result ?a) = None \<and>
      response (result ?a) = [SetHeader ''authorization'' ''yo'', SetHeader ''x-step'' ''1'']"
    using a1 a2 by simp
  have b: "length (made ?b) = 2 \<and> \<not> resolver_invoked (result ?b) \<and>
      escaped (result ?b) = Some (HandlerError ''boom'') \<and> printed (result ?b) = [] \<and>
      response (result ?b) = [SetHeader ''authorization'' ''yo'', SetHeader ''x-step'' ''1'']"
    using tb [THEN conjunct2, THEN conjunct2, THEN conjunct1, rule_format, OF pb]
    by (simp add: mb authorize_def writes_of_def rejections_of_def)
  from a b a1 show ?thesis by simp
qed

text \<open>
  Claim C2 as stated fails for a handler that invokes the continuation and then
  rejects: the next handler runs, and here the resolver after it. It fails as well for
  a handler that raises: nothing is printed and the exception leaves the listener.
\<close>

theorem rejection_after_next_counterexample:
  "rejection (handled (requestListener example_platform rejecting_after_next_server \<lparr>url = ''/''\<rparr>) ! 0)
     = Some (HandlerError ''boom'') \<and>
   length (handled (requestListener example_platform rejecting_after_next_server \<lparr>url = ''/''\<rparr>)) = 2 \<and>
   resolver_invoked (requestListener example_platform rejecting_after_next_server \<lparr>url = ''/''\<rparr>) \<and>
   made (dispatch example_platform example_server [raising] \<lparr>url = ''/''\<rparr>)
     = [Raised [SetHeader ''x-step'' ''1''] False (HandlerError ''boom'')] \<and>
   printed (result (dispatch example_platform example_server [raising] \<lparr>url = ''/''\<rparr>)) = [] \<and>
   escaped (result (dispatch example_platform example_server [raising] \<lparr>url = ''/''\<rparr>))
     = Some (HandlerError ''boom'')"
proof -
  have c: "calls_made \<lparr>url = ''/''\<rparr> [raising] []
      = [Raised [SetHeader ''x-step'' ''1''] False (HandlerError ''boom'')]"
    by (simp add: raising_def)
  then have "raised_of (calls_made \<lparr>url = ''/''\<rparr> [raising] []) = Some (HandlerError ''boom'')"
    by (simp add: raised_of_def)
  from dispatch_raised [OF this, of example_platform example_server] c show ?thesis
    by (simp add: listener_handled listener_resolver rejecting_matching rejecting_after_next_def
        authorize_def dispatch_made rejections_of_def)
qed

section \<open>Static resolution\<close>

lemma headersSent_append:
  "headersSent (written @ later) = (headersSent written \<or> headersSent later)"
  by (simp add: headersSent_def)

lemma complete_fresh:
  "\<not> headersSent written \<Longrightarrow>
     complete mimeType input written
       = (written @ [SetHeader ''Content-Type'' mimeType, WriteHead 200, End input], None)"
  by (simp add: complete_def setHeader_def writeHead_def res_end_def headersSent_append headersSent_def)

lemma complete_sent:
  "headersSent written \<Longrightarrow>
     complete mimeType input written = (written, Some (HttpError ''ERR_HTTP_HEADERS_SENT''))"
  by (simp add: complete_def setHeader_def)

lemma error_response_fresh:
  "\<not> headersSent written \<Longrightarrow>
     error_response u ex written
       = (written @ [SetHeader ''Content-Type'' ''text/html'', WriteHead 500, End (error_page u ex)], None)"
  by (simp add: error_response_def setHeader_def writeHead_def res_end_def headersSent_append
      headersSent_def)

lemma error_response_sent:
  "headersSent written \<Longrightarrow>
     error_response u ex written = (written, Some (HttpError ''ERR_HTTP_HEADERS_SENT''))"
  by (simp add: error_response_def setHeader_def)

lemma page_not_found_fresh:
  "\<not> headersSent written \<Longrightarrow>
     page_not_found written
       = (written @ [SetStatusCode 404, SetHeader ''Content-Type'' ''text/html'', End not_found_page],
          None)"
  by (simp add: page_not_found_def set_statusCode_def setHeader_def res_end_def headersSent_append
      headersSent_def)

lemma page_not_found_sent:
  "headersSent written \<Longrightarrow>
     page_not_found written
       = (written @ [SetStatusCode 404], Some (HttpError ''ERR_HTTP_HEADERS_SENT''))"
  by (simp add: page_not_found_def set_statusCode_def setHeader_def headersSent_append)

text \<open>
  Claim C4, amended. The candidate path is the directory joined with the URL path,
  after \<open>index.html\<close> has been appended to a trailing slash and the subfolder removed.
  When nothing exists at it and the head of the response has not been sent, the resolver
  sets status 404 and content type \<open>text/html\<close>, ends the response with the fixed page,
  and does nothing else. When a directory is at it, the existence check passes, reading
  fails, and the answer is the error page with status 500. When nothing exists at it and
  the head has been sent already, \<open>setHeader\<close> throws, in the \<open>catch\<close> as well: no page is
  sent and the error leaves the resolver.
\<close>

theorem missing_path_is_404:
  assumes "target env this req dirArg = Inr (Some d, u)"
  shows "candidate_path env this req dirArg = Some (path_join env d u) \<and>
    (fs env (path_join env d u) = None \<and> \<not> headersSent written \<longrightarrow>
       defaultHandler env this req dirArg addSocket written
         = \<lparr>ops = written @ [SetStatusCode 404, SetHeader ''Content-Type'' ''text/html'',
                              End not_found_page],
            logs = [], failure = None\<rparr>) \<and>
    (fs env (path_join env d u) = Some Directory \<and> \<not> headersSent written \<longrightarrow>
       defaultHandler env this req dirArg addSocket written
         = \<lparr>ops = written @ [SetHeader ''Content-Type'' ''text/html'', WriteHead 500,
                              End (error_page u (FsError ''EISDIR''))],
            logs = [ConsoleError (FsError ''EISDIR'')], failure = None\<rparr>) \<and>
    (fs env (path_join env d u) = None \<and> headersSent written \<longrightarrow>
       defaultHandler env this req dirArg addSocket written
         = \<lparr>ops = written @ [SetStatusCode 404],
            logs = [ConsoleError (HttpError ''ERR_HTTP_HEADERS_SENT'')],
            failure = Some (HttpError ''ERR_HTTP_HEADERS_SENT'')\<rparr>)"
proof (intro conjI impI)
  show "candidate_path env this req dirArg = Some (path_join env d u)"
    using assms by (simp add: candidate_path_def)
next
  assume a: "fs env (path_join env d u) = None \<and> \<not> headersSent written"
  then have "serve_file env this (Some d) u addSocket written
      = (written @ [SetStatusCode 404, SetHeader ''Content-Type'' ''text/html'', End not_found_page],
         [], None)"
    by (simp add: serve_file_def stat_def page_not_found_fresh)
  then show "defaultHandler env this req dirArg addSocket written
         = \<lparr>ops = written @ [SetStatusCode 404, SetHeader ''Content-Type'' ''text/html'',
                              End not_found_page],
            logs = [], failure = None\<rparr>"
    using assms by (simp add: defaultHandler_def)
next
  assume a: "fs env (path_join env d u) = Some Directory \<and> \<not> headersSent written"
  then have "serve_file env this (Some d) u addSocket written = (written, [], Some (FsError ''EISDIR''))"
    by (simp add: serve_file_def stat_def readFile_def)
  then show "defaultHandler env this req dirArg addSocket written
         = \<lparr>ops = written @ [SetHeader ''Content-Type'' ''text/html'', WriteHead 500,
                              End (error_page u (FsError ''EISDIR''))],
            logs = [ConsoleError (FsError ''EISDIR'')], failure = None\<rparr>"
    using assms a by (simp add: defaultHandler_def error_response_fresh)
next
  assume a: "fs env (path_join env d u) = None \<and> headersSent written"
  then have "serve_file env this (Some d) u addSocket written
      = (written @ [SetStatusCode 404], [], Some (HttpError ''ERR_HTTP_HEADERS_SENT''))"
    by (simp add: serve_file_def stat_def page_not_found_sent)
  moreover have "headersSent (written @ [SetStatusCode 404])"
    using a by (simp add: headersSent_append)
  ultimately show "defaultHandler env this req dirArg addSocket written
         = \<lparr>ops = written @ [SetStatusCode 404],
            logs = [ConsoleError (HttpError ''ERR_HTTP_HEADERS_SENT'')],
            failure = Some (HttpError ''ERR_HTTP_HEADERS_SENT'')\<rparr>"
    using assms by (simp add: defaultHandler_def error_response_sent)
qed

lemma example_targets:
  "target example_platform this' \<lparr>url = ''/assets''\<rparr> None = Inr (Some ''site'', ''/assets'')"
  "target example_platform this' \<lparr>url = ''/nothing.html?x=1''\<rparr> None
     = Inr (Some ''site'', ''/nothing.html'')"
  "target example_platform this' \<lparr>url = ''/frames.html''\<rparr> None
     = Inr (Some ''site'', ''/frames.html'')"
  "target example_platform this' \<lparr>url = ''/''\<rparr> None = Inr (Some ''site'', ''/index.html'')"
  if "directory this' = Some ''site''" "subfolder this' = None"
  using that by (simp_all add: target_def example_platform_def endsWith_def truthy_def)

lemma example_fields:
  "directory example_server = Some ''site''" "subfolder example_server = None"
  "mimeTypes example_server = Some example_table"
  "directory eager_server = Some ''site''" "subfolder eager_server = None"
  "mimeTypes eager_server = Some example_table"
  by (simp_all add: example_server_def eager_server_def)

lemma example_files:
  "fs example_platform (path_join example_platform ''site'' ''/nothing.html'') = None"
  "fs example_platform (path_join example_platform ''site'' ''/assets'') = Some Directory"
  "fs example_platform (path_join example_platform ''site'' ''/frames.html'')
     = Some (RegularFile ''<frameset>'')"
  "fs example_platform (path_join example_platform ''site'' ''/index.html'')
     = Some (RegularFile ''hello'')"
  by (simp_all add: example_platform_def)

lemma eager_listener:
  "requestListener example_platform eager_server req
     = (let d = defaultHandler example_platform eager_server req None True [WriteHead 200, End ''done'']
        in \<lparr>response = ops d, printed = logs d, handled = [eager req []],
            resolver_invoked = True, escaped = failure d\<rparr>)"
proof -
  have "matching example_platform eager_server req = [eager]"
    by (simp add: matching_def eager_server_def example_server_def any_path_accepts)
  then show ?thesis
    by (simp add: requestListener_def Let_def eager_def reset_def invoke_def generateNext_def)
qed

theorem missing_path_is_404_witness:
  "candidate_path example_platform example_server \<lparr>url = ''/nothing.html?x=1''\<rparr> None
     = Some ''site/nothing.html'' \<and>
   defaultHandler example_platform example_server \<lparr>url = ''/nothing.html?x=1''\<rparr> None True []
     = \<lparr>ops = [SetStatusCode 404, SetHeader ''Content-Type'' ''text/html'', End not_found_page],
        logs = [], failure = None\<rparr> \<and>
   defaultHandler example_platform example_server \<lparr>url = ''/assets''\<rparr> None True []
     = \<lparr>ops = [SetHeader ''Content-Type'' ''text/html'', WriteHead 500,
               End (error_page ''/assets'' (FsError ''EISDIR''))],
        logs = [ConsoleError (FsError ''EISDIR'')], failure = None\<rparr> \<and>
   defaultHandler example_platform example_server \<lparr>url = ''/nothing.html?x=1''\<rparr> None True
       [WriteHead 200, End ''done'']
     = \<lparr>ops = [WriteHead 200, End ''done'', SetStatusCode 404],
        logs = [ConsoleError (HttpError ''ERR_HTTP_HEADERS_SENT'')],
        failure = Some (HttpError ''ERR_HTTP_HEADERS_SENT'')\<rparr>"
proof -
  note t = example_targets [OF example_fields(1,2)]
  have j: "path_join example_platform ''site'' ''/nothing.html'' = ''site/nothing.html''"
    by (simp add: example_platform_def)
  have h: "\<not> headersSent []" "headersSent [WriteHead 200, End ''done'']"
    by (simp_all add: headersSent_def)
  show ?thesis
    using missing_path_is_404 [OF t(2), of "[]" True]
      missing_path_is_404 [OF t(1), of "[]" True]
      missing_path_is_404 [OF t(2), of "[WriteHead 200, End ''done'']" True]
      example_files h j
    by simp
qed

text \<open>
  Claim C4 as stated fails on a path that exists and is not a regular file, which ends
  in status 500, and on a missing path requested after a handler has sent the response
  and invoked the continuation, where no 404 is sent.
\<close>

theorem directory_counterexample:
  "candidate_path example_platform example_server \<lparr>url = ''/assets''\<rparr> None = Some ''site/assets'' \<and>
   \<not> regular_file example_platform ''site/assets'' \<and>
   defaultHandler example_platform example_server \<lparr>url = ''/assets''\<rparr> None True []
     = \<lparr>ops = [SetHeader ''Content-Type'' ''text/html'', WriteHead 500,
               End (error_page ''/assets'' (FsError ''EISDIR''))],
        logs = [ConsoleError (FsError ''EISDIR'')], failure = None\<rparr> \<and>
   candidate_path example_platform eager_server \<lparr>url = ''/nothing.html?x=1''\<rparr> None
     = Some ''site/nothing.html'' \<and>
   \<not> regular_file example_platform ''site/nothing.html'' \<and>
   response (requestListener example_platform eager_server \<lparr>url = ''/nothing.html?x=1''\<rparr>)
     = [WriteHead 200, End ''done'', SetStatusCode 404] \<and>
   escaped (requestListener example_platform eager_server \<lparr>url = ''/nothing.html?x=1''\<rparr>)
     = Some (HttpError ''ERR_HTTP_HEADERS_SENT'')"
proof -
  note t = example_targets [OF example_fields(1,2)]
  note te = example_targets [OF example_fields(4,5)]
  have c: "candidate_path example_platform example_server \<lparr>url = ''/assets''\<rparr> None = Some ''site/assets''"
    "candidate_path example_platform eager_server \<lparr>url = ''/nothing.html?x=1''\<rparr> None
       = Some ''site/nothing.html''"
    by (simp_all add: candidate_path_def t te) (simp_all add: example_platform_def)
  have r: "\<not> regular_file example_platform ''site/assets''"
    "\<not> regular_file example_platform ''site/nothing.html''"
    by (simp_all add: regular_file_def example_platform_def)
  have s: "serve_file example_platform example_server (Some ''site'') ''/assets'' True []
      = ([], [], Some (FsError ''EISDIR''))"
    using example_files(2) by (simp add: serve_file_def stat_def readFile_def)
  have d: "defaultHandler example_platform example_server \<lparr>url = ''/assets''\<rparr> None True []
     = \<lparr>ops = [SetHeader ''Content-Type'' ''text/html'', WriteHead 500,
               End (error_page ''/assets'' (FsError ''EISDIR''))],
        logs = [ConsoleError (FsError ''EISDIR'')], failure = None\<rparr>"
    using s by (simp add: defaultHandler_def t error_response_fresh headersSent_def)
  have s2: "serve_file example_platform eager_server (Some ''site'') ''/nothing.html'' True
        [WriteHead 200, End ''done'']
      = ([WriteHead 200, End ''done'', SetStatusCode 404], [],
         Some (HttpError ''ERR_HTTP_HEADERS_SENT''))"
    using example_files(1)
    by (simp add: serve_file_def stat_def page_not_found_sent headersSent_def)
  have d2: "defaultHandler example_platform eager_server \<lparr>url = ''/nothing.html?x=1''\<rparr> None True
        [WriteHead 200, End ''done'']
     = \<lparr>ops = [WriteHead 200, End ''done'', SetStatusCode 404],
        logs = [ConsoleError (HttpError ''ERR_HTTP_HEADERS_SENT'')],
        failure = Some (HttpError ''ERR_HTTP_HEADERS_SENT'')\<rparr>"
    using s2 by (simp add: defaultHandler_def te error_response_sent headersSent_def)
  show ?thesis
    using c r d d2 by (simp add: eager_listener)
qed

section \<open>Injection\<close>

lemma query_sound:
  "(query_node t n = Some p \<longrightarrow> (\<exists>as cs. node_at p n = Some (Element t as cs)))"
  "(query_nodes t ns = Some p \<longrightarrow>
      (\<exists>i q as cs. p = i # q \<and> i < length ns \<and> node_at q (ns ! i) = Some (Element t as cs)))"
proof (induction t n and t ns arbitrary: p and p rule: query_node_query_nodes.induct)
  case (1 t s)
  show ?case by simp
next
  case (2 t tag as cs)
  show ?case
  proof (cases "tag = t")
    case True
    then show ?thesis by auto
  next
    case False
    with "2.IH" [OF False, of p] show ?thesis by auto
  qed
next
  case (3 t)
  show ?case by simp
next
  case (4 t c cs)
  show ?case
  proof (cases "query_node t c")
    case None
    show ?thesis
    proof
      assume a: "query_nodes t (c # cs) = Some p"
      with None obtain p' where p': "query_nodes t cs = Some p'" and p: "p = shift p'"
        by auto
      from "4.IH"(2) [OF None, of p'] p' obtain i q as cs' where
        "p' = i # q" "i < length cs" "node_at q (cs ! i) = Some (Element t as cs')"
        by blast
      with p show "\<exists>i q as cs'. p = i # q \<and> i < length (c # cs)
          \<and> node_at q ((c # cs) ! i) = Some (Element t as cs')"
        by (intro exI [of _ "Suc i"] exI [of _ q]) (simp add: shift_def)
    qed
  next
    case (Some p')
    with "4.IH"(1) [of p'] show ?thesis by auto
  qed
qed

lemma querySelector_sound:
  assumes "querySelector t document = Some p"
  shows "\<exists>as cs. node_at p document = Some (Element t as cs)"
proof (cases document)
  case (TextNode s)
  with assms show ?thesis by (simp add: querySelector_def)
next
  case (Element tag as cs)
  with assms have "query_nodes t cs = Some p" by (simp add: querySelector_def)
  with query_sound(2) [of t cs p] obtain i q bs ds where
    "p = i # q" "i < length cs" "node_at q (cs ! i) = Some (Element t bs ds)"
    by blast
  with Element show ?thesis by simp
qed

lemma appendChild_at:
  "node_at p n = Some (Element t as cs) \<Longrightarrow>
     node_at p (appendChild p new n) = Some (Element t as (cs @ [new]))"
proof (induction p arbitrary: n)
  case Nil
  then show ?case by simp
next
  case (Cons i p)
  then show ?case by (cases n) (auto split: if_splits)
qed

lemma removeLastChild_appendChild:
  "node_at p n = Some (Element t as cs) \<Longrightarrow> removeLastChild p (appendChild p new n) = n"
proof (induction p arbitrary: n)
  case Nil
  then show ?case by simp
next
  case (Cons i p)
  then show ?case by (cases n) (auto split: if_splits)
qed

lemma sum_list_update_nat:
  "i < length xs \<Longrightarrow> sum_list (map f (xs[i := y])) + f (xs ! i) = sum_list (map f xs) + (f y :: nat)"
proof (induction xs arbitrary: i)
  case Nil
  then show ?case by simp
next
  case (Cons x xs)
  then show ?case by (cases i) auto
qed

lemma count_appendChild:
  "node_at p n = Some (Element t as cs) \<Longrightarrow>
     count_elements s (appendChild p new n) = count_elements s n + count_elements s new"
proof (induction p arbitrary: n)
  case Nil
  then show ?case by simp
next
  case (Cons i p)
  show ?case
  proof (cases n)
    case (TextNode x)
    with Cons.prems show ?thesis by simp
  next
    case (Element tag bs ds)
    with Cons.prems have i: "i < length ds" and at: "node_at p (ds ! i) = Some (Element t as cs)"
      by (auto split: if_splits)
    from Cons.IH [OF at]
    have "count_elements s (appendChild p new (ds ! i)) = count_elements s (ds ! i) + count_elements s new" .
    with sum_list_update_nat [OF i, of "count_elements s" "appendChild p new (ds ! i)"] Element i
    show ?thesis by simp
  qed
qed


lemma count_scripts: "count_elements ''script'' loader_script = 1" "count_elements ''script'' reload_script = 1"
  by (simp_all add: loader_script_def reload_script_def)

lemma injection_body:
  assumes "querySelector ''body'' document = Some b"
    and "injected = appendChild b reload_script (appendChild b loader_script document)"
  shows "(\<exists>as cs. node_at b document = Some (Element ''body'' as cs) \<and>
            node_at b injected = Some (Element ''body'' as (cs @ [loader_script, reload_script]))) \<and>
         removeLastChild b (removeLastChild b injected) = document \<and>
         count_elements ''script'' injected = count_elements ''script'' document + 2"
proof -
  from querySelector_sound [OF assms(1)] obtain as cs where
    at: "node_at b document = Some (Element ''body'' as cs)" by blast
  let ?one = "appendChild b loader_script document"
  have one: "node_at b ?one = Some (Element ''body'' as (cs @ [loader_script]))"
    using appendChild_at [OF at] .
  have two: "node_at b injected = Some (Element ''body'' as (cs @ [loader_script, reload_script]))"
    using appendChild_at [OF one, of reload_script] assms(2) by simp
  have restored: "removeLastChild b (removeLastChild b injected) = document"
    using removeLastChild_appendChild [OF one, of reload_script]
      removeLastChild_appendChild [OF at, of loader_script] assms(2) by simp
  have count: "count_elements ''script'' injected = count_elements ''script'' document + 2"
    using count_appendChild [OF one, of "''script''" reload_script]
      count_appendChild [OF at, of "''script''" loader_script] assms(2) count_scripts by simp
  from at two restored count show ?thesis by blast
qed

text \<open>
  Claim C6, amended. When the parsed document has a body element, the injector returns
  the serialised document in which the loader script and the reload script are the last
  two children of that element, in this order: taking them away gives the parsed
  document back, and the document has two more script elements. When it has none, the
  injector fails with a TypeError, and the resolver, for an existing regular file and a
  response whose head has not been sent, sends the file's content as read with status
  200 and the resolved content type.
\<close>

theorem injection:
  "(querySelector ''body'' (jsdom env html) = Some b \<and>
    injected = appendChild b reload_script (appendChild b loader_script (jsdom env html))
      \<longrightarrow> socketInjection env html = Inr (serialize env injected) \<and>
          (\<exists>as cs. node_at b (jsdom env html) = Some (Element ''body'' as cs) \<and>
             node_at b injected = Some (Element ''body'' as (cs @ [loader_script, reload_script]))) \<and>
          removeLastChild b (removeLastChild b injected) = jsdom env html \<and>
          count_elements ''script'' injected = count_elements ''script'' (jsdom env html) + 2) \<and>
   (querySelector ''body'' (jsdom env html) = None
      \<longrightarrow> socketInjection env html = Inl (TypeError ''appendChild'') \<and>
          (target env this req dirArg = Inr (Some d, u) \<and>
           fs env (path_join env d u) = Some (RegularFile html) \<and> mimeTypes this = Some table \<and>
           \<not> headersSent written
             \<longrightarrow> defaultHandler env this req dirArg addSocket written
                   = \<lparr>ops = written @ [SetHeader ''Content-Type'' (fst (mime_of env table u)),
                                        WriteHead 200, End html],
                      logs = snd (mime_of env table u), failure = None\<rparr>))"
proof (intro conjI impI)
  assume a: "querySelector ''body'' (jsdom env html) = Some b \<and>
    injected = appendChild b reload_script (appendChild b loader_script (jsdom env html))"
  then show "socketInjection env html = Inr (serialize env injected)"
    by (simp add: socketInjection_def)
  from a injection_body [of "jsdom env html" b injected]
  show "\<exists>as cs. node_at b (jsdom env html) = Some (Element ''body'' as cs) \<and>
             node_at b injected = Some (Element ''body'' as (cs @ [loader_script, reload_script]))"
    and "removeLastChild b (removeLastChild b injected) = jsdom env html"
    and "count_elements ''script'' injected = count_elements ''script'' (jsdom env html) + 2"
    by simp_all
next
  assume n: "querySelector ''body'' (jsdom env html) = None"
  then show f: "socketInjection env html = Inl (TypeError ''appendChild'')"
    by (simp add: socketInjection_def)
  assume h: "target env this req dirArg = Inr (Some d, u) \<and>
           fs env (path_join env d u) = Some (RegularFile html) \<and> mimeTypes this = Some table \<and>
           \<not> headersSent written"
  obtain mimeType warned where m: "mime_of env table u = (mimeType, warned)"
    by (cases "mime_of env table u")
  have "serve_file env this (Some d) u addSocket written
      = (written @ [SetHeader ''Content-Type'' mimeType, WriteHead 200, End html], warned, None)"
    using h f m by (simp add: serve_file_def stat_def readFile_def complete_fresh)
  then show "defaultHandler env this req dirArg addSocket written
                   = \<lparr>ops = written @ [SetHeader ''Content-Type'' (fst (mime_of env table u)),
                                        WriteHead 200, End html],
                      logs = snd (mime_of env table u), failure = None\<rparr>"
    using h m by (simp add: defaultHandler_def)
qed

lemma frames_mime:
  "mime_of example_platform example_table ''/frames.html'' = (''text/html'', [])"
  by (simp add: mime_of_def example_platform_def example_table_def)

lemma frames_no_body: "querySelector ''body'' (jsdom example_platform ''<frameset>'') = None"
  by (simp add: querySelector_def example_platform_def example_parse_def)

theorem injection_witness:
  "socketInjection example_platform ''hello''
     = Inr (example_serialize
         (Element ''#document'' []
            [Element ''html'' []
               [Element ''head'' [] [],
                Element ''body'' [] [TextNode ''hello'', loader_script, reload_script]]])) \<and>
   count_elements ''script''
     (Element ''#document'' []
        [Element ''html'' []
           [Element ''head'' [] [],
            Element ''body'' [] [TextNode ''hello'', loader_script, reload_script]]]) = 2 \<and>
   socketInjection example_platform ''<frameset>'' = Inl (TypeError ''appendChild'') \<and>
   defaultHandler example_platform example_server \<lparr>url = ''/frames.html''\<rparr> None True []
     = \<lparr>ops = [SetHeader ''Content-Type'' ''text/html'', WriteHead 200, End ''<frameset>''],
        logs = [], failure = None\<rparr>"
proof -
  let ?injected = "Element ''#document'' []
        [Element ''html'' []
           [Element ''head'' [] [],
            Element ''body'' [] [TextNode ''hello'', loader_script, reload_script]]]"
  have q: "querySelector ''body'' (jsdom example_platform ''hello'') = Some [0, 1]"
    by (simp add: querySelector_def example_platform_def example_parse_def shift_def)
  have i: "?injected = appendChild [0, 1] reload_script
             (appendChild [0, 1] loader_script (jsdom example_platform ''hello''))"
    by (simp add: example_platform_def example_parse_def)
  have s: "serialize example_platform = example_serialize"
    by (simp add: example_platform_def)
  have z: "count_elements ''script'' (jsdom example_platform ''hello'') = 0"
    by (simp add: example_platform_def example_parse_def)
  have h: "\<not> headersSent []"
    by (simp add: headersSent_def)
  show ?thesis
    using injection [of example_platform "''hello''" "[0, 1]" ?injected]
      injection [of example_platform "''<frameset>''" _ _ example_server "\<lparr>url = ''/frames.html''\<rparr>"
        None "''site''" "''/frames.html''" example_table "[]" True]
      q i s z h frames_no_body example_files(3) example_fields(3)
      example_targets(3) [OF example_fields(1,2)] frames_mime
    by simp
qed

text \<open>
  Claim C6 as stated fails once a handler has sent the response and invoked the
  continuation: for a document without a body element the resolver sends nothing, and
  the error of \<open>setHeader\<close> leaves the listener.
\<close>

theorem sent_response_counterexample:
  "candidate_path example_platform eager_server \<lparr>url = ''/frames.html''\<rparr> None
     = Some ''site/frames.html'' \<and>
   fs example_platform ''site/frames.html'' = Some (RegularFile ''<frameset>'') \<and>
   querySelector ''body'' (jsdom example_platform ''<frameset>'') = None \<and>
   response (requestListener example_platform eager_server \<lparr>url = ''/frames.html''\<rparr>)
     = [WriteHead 200, End ''done''] \<and>
   escaped (requestListener example_platform eager_server \<lparr>url = ''/frames.html''\<rparr>)
     = Some (HttpError ''ERR_HTTP_HEADERS_SENT'')"
proof -
  note te = example_targets [OF example_fields(4,5)]
  have c: "candidate_path example_platform eager_server \<lparr>url = ''/frames.html''\<rparr> None
     = Some ''site/frames.html''"
    by (simp add: candidate_path_def te) (simp add: example_platform_def)
  have f: "fs example_platform ''site/frames.html'' = Some (RegularFile ''<frameset>'')"
    by (simp add: example_platform_def)
  have i: "socketInjection example_platform ''<frameset>'' = Inl (TypeError ''appendChild'')"
    using frames_no_body by (simp add: socketInjection_def)
  have s: "serve_file example_platform eager_server (Some ''site'') ''/frames.html'' True
        [WriteHead 200, End ''done'']
      = ([WriteHead 200, End ''done''], [], Some (HttpError ''ERR_HTTP_HEADERS_SENT''))"
    using example_files(3) example_fields(6) frames_mime i
    by (simp add: serve_file_def stat_def readFile_def complete_sent headersSent_def)
  have d: "defaultHandler example_platform eager_server \<lparr>url = ''/frames.html''\<rparr> None True
        [WriteHead 200, End ''done'']
     = \<lparr>ops = [WriteHead 200, End ''done''],
        logs = [ConsoleError (HttpError ''ERR_HTTP_HEADERS_SENT'')],
        failure = Some (HttpError ''ERR_HTTP_HEADERS_SENT'')\<rparr>"
    using s by (simp add: defaultHandler_def te error_response_sent headersSent_def)
  show ?thesis
    using c f frames_no_body d by (simp add: eager_listener)
qed

section \<open>Further properties\<close>

text \<open>
  With a configuration object, every omitted field takes its default: \<open>localhost\<close>,
  62295, \<open>site\<close>, no subfolder, no middleware, no additional MIME type.
\<close>

theorem configured_defaults:
  assumes "constructor eng (Some c) = Inr this"
  shows "(config_host c = None \<longrightarrow> host this = Some ''localhost'') \<and>
         (config_port c = None \<longrightarrow> port this = Some 62295) \<and>
         (config_directory c = None \<longrightarrow> directory this = Some ''site'') \<and>
         subfolder this = config_subfolder c \<and>
         (config_middlewares c = None \<longrightarrow> middlewares this = []) \<and>
         (config_additionalMimeTypes c = None \<longrightarrow> mimeTypes this = Some [])"
proof -
  have "config_middlewares c = None \<longrightarrow> middlewares this = []"
    using assms by (auto simp: constructor_def uninitialised_def)
  then show ?thesis
    using constructor_fields [OF assms]
    by (auto simp: string_or_def number_or_def)
qed

theorem configured_defaults_witness:
  "constructor example_engine
     (Some (example_config\<lparr>config_middlewares := None, config_subfolder := Some ''/docs''\<rparr>))
   = Inr (uninitialised\<lparr>host := Some ''localhost'', port := Some 62295, directory := Some ''site'',
            subfolder := Some ''/docs'', mimeTypes := Some []\<rparr>)"
proof -
  have c: "constructor example_engine
     (Some (example_config\<lparr>config_middlewares := None, config_subfolder := Some ''/docs''\<rparr>))
   = Inr (uninitialised\<lparr>host := Some ''localhost'', port := Some 62295, directory := Some ''site'',
            subfolder := Some ''/docs'', mimeTypes := Some []\<rparr>)"
    by (simp add: constructor_def example_config_def uninitialised_def string_or_def number_or_def)
  from configured_defaults [OF c] c show ?thesis by simp
qed

text \<open>
  The flags handed to the engine have no letter twice and are the letters of the flags
  in the spec; \<open>gig\<close> becomes \<open>gi\<close>.
\<close>

theorem unique_flags_distinct:
  "distinct (unique_flags k) \<and> set (unique_flags k) = set k \<and> unique_flags ''gig'' = ''gi''"
  using collapse_distinct [of "[]" k] by (simp add: unique_flags_collapse)

text \<open>
  When the candidate path is a regular file, the MIME table is in place and the head of
  the response has not been sent, the resolver answers with status 200 and the resolved
  content type; the body is the file's content, or the injected document when the type
  is \<open>text/html\<close>, injection is asked for and it succeeds.
\<close>

theorem existing_file_is_200:
  assumes "target env this req dirArg = Inr (Some d, u)"
    and "fs env (path_join env d u) = Some (RegularFile content)"
    and "mimeTypes this = Some table"
    and "\<not> headersSent written"
  shows "\<exists>body. defaultHandler env this req dirArg addSocket written
              = \<lparr>ops = written @ [SetHeader ''Content-Type'' (fst (mime_of env table u)),
                                   WriteHead 200, End body],
                 logs = snd (mime_of env table u), failure = None\<rparr> \<and>
            (body = content \<or>
             fst (mime_of env table u) = ''text/html'' \<and> addSocket \<and>
             socketInjection env content = Inr body)"
proof -
  obtain mimeType warned where m: "mime_of env table u = (mimeType, warned)"
    by (cases "mime_of env table u")
  show ?thesis
  proof (cases "mimeType = ''text/html'' \<and> addSocket")
    case False
    then have "serve_file env this (Some d) u addSocket written
        = (written @ [SetHeader ''Content-Type'' mimeType, WriteHead 200, End content], warned, None)"
      using assms m by (auto simp: serve_file_def stat_def readFile_def complete_fresh)
    then show ?thesis
      using assms(1) m by (simp add: defaultHandler_def)
  next
    case True
    show ?thesis
    proof (cases "socketInjection env content")
      case (Inl e)
      then have "serve_file env this (Some d) u addSocket written
          = (written @ [SetHeader ''Content-Type'' mimeType, WriteHead 200, End content], warned, None)"
        using assms m True by (simp add: serve_file_def stat_def readFile_def complete_fresh)
      then show ?thesis
        using assms(1) m by (simp add: defaultHandler_def)
    next
      case (Inr modified)
      then have "serve_file env this (Some d) u addSocket written
          = (written @ [SetHeader ''Content-Type'' mimeType, WriteHead 200, End modified], warned, None)"
        using assms m True by (simp add: serve_file_def stat_def readFile_def complete_fresh)
      then show ?thesis
        using assms(1) m True Inr by (simp add: defaultHandler_def)
    qed
  qed
qed

theorem existing_file_is_200_witness:
  "defaultHandler example_platform example_server \<lparr>url = ''/''\<rparr> None False []
     = \<lparr>ops = [SetHeader ''Content-Type'' ''text/html'', WriteHead 200, End ''hello''],
        logs = [], failure = None\<rparr>"
proof -
  have t: "mime_of example_platform example_table ''/index.html'' = (''text/html'', [])"
    by (simp add: mime_of_def example_platform_def example_table_def)
  have h: "\<not> headersSent []"
    by (simp add: headersSent_def)
  from existing_file_is_200 [OF example_targets(4) [OF example_fields(1,2)] example_files(4)
      example_fields(3) h, of False] t
  show ?thesis by auto
qed

text \<open>
  The URL is parsed before the \<open>try\<close>: when the parser throws, the resolver makes no
  call on the response, and the exception leaves the resolver and, when the dispatcher
  invoked it, the listener.
\<close>

theorem invalid_url_escapes:
  assumes "url_pathname env (url req) = None"
  shows "defaultHandler env this req dirArg addSocket written
           = \<lparr>ops = written, logs = [], failure = Some (TypeError ''Invalid URL'')\<rparr> \<and>
         (resolver_invoked (requestListener env this req)
            \<longrightarrow> escaped (requestListener env this req) = Some (TypeError ''Invalid URL''))"
  using assms by (simp add: defaultHandler_def target_def requestListener_def Let_def)

theorem invalid_url_escapes_witness:
  "defaultHandler example_platform example_server \<lparr>url = ''//''\<rparr> None True []
     = \<lparr>ops = [], logs = [], failure = Some (TypeError ''Invalid URL'')\<rparr> \<and>
   resolver_invoked (requestListener example_platform example_server \<lparr>url = ''//''\<rparr>) \<and>
   escaped (requestListener example_platform example_server \<lparr>url = ''//''\<rparr>)
     = Some (TypeError ''Invalid URL'')"
proof -
  have u: "url_pathname example_platform (url \<lparr>url = ''//''\<rparr>) = None"
    by (simp add: example_platform_def)
  have m: "matching example_platform example_server \<lparr>url = ''//''\<rparr> = [authorize]"
    by (simp add: matching_def example_server_def example_platform_def any_path_accepts
        test_compiled example_engine_def)
  have r: "resolver_invoked (requestListener example_platform example_server \<lparr>url = ''//''\<rparr>)"
    by (simp add: listener_resolver m authorize_def)
  from invalid_url_escapes [OF u, of example_server None True "[]"] r show ?thesis by simp
qed

end
